theory Spec2Isabelle
  imports Main "HOL-Library.AList"
begin

section \<open>Python strings\<close>

text \<open>
  The command processor of \<^verbatim>\<open>letta/server/server.py\<close> works on Python strings with
  \<^verbatim>\<open>lower\<close>, \<^verbatim>\<open>startswith\<close>, \<^verbatim>\<open>strip\<close>, \<^verbatim>\<open>split\<close>, \<^verbatim>\<open>isdigit\<close> and \<^verbatim>\<open>int\<close>.
  They are modelled on ASCII text: a character outside ASCII is taken to be neither a letter,
  a digit nor white space.
\<close>

definition lower_char :: "char \<Rightarrow> char" where
  "lower_char c =
     (let n = (of_char c :: nat) in if 65 \<le> n \<and> n \<le> 90 then char_of (n + 32) else c)"

definition lower :: "string \<Rightarrow> string" where
  "lower s = map lower_char s"

definition startswith :: "string \<Rightarrow> string \<Rightarrow> bool" where
  "startswith s p = (take (length p) s = p)"

definition isspace :: "char \<Rightarrow> bool" where
  "isspace c = (let n = (of_char c :: nat) in (9 \<le> n \<and> n \<le> 13) \<or> (28 \<le> n \<and> n \<le> 32))"

definition strip :: "string \<Rightarrow> string" where
  "strip s = rev (dropWhile isspace (rev (dropWhile isspace s)))"

text \<open>\<^verbatim>\<open>str.split()\<close> without a separator: the maximal runs of characters that are not
  white space. The first argument is the word being read, reversed.\<close>

fun split_from :: "string \<Rightarrow> string \<Rightarrow> string list" where
  "split_from w [] = (if w = [] then [] else [rev w])"
| "split_from w (c # cs) =
     (if isspace c then (if w = [] then split_from [] cs else rev w # split_from [] cs)
      else split_from (c # w) cs)"

definition split_str :: "string \<Rightarrow> string list" where
  "split_str s = split_from [] s"

definition isdigit_char :: "char \<Rightarrow> bool" where
  "isdigit_char c = (let n = (of_char c :: nat) in 48 \<le> n \<and> n \<le> 57)"

definition isdigit :: "string \<Rightarrow> bool" where
  "isdigit s = (s \<noteq> [] \<and> list_all isdigit_char s)"

text \<open>\<^verbatim>\<open>int(s)\<close> for a string of decimal digits.\<close>

definition int_of_digits :: "string \<Rightarrow> nat" where
  "int_of_digits s = foldl (\<lambda>a c. 10 * a + (of_char c - 48)) 0 s"

section \<open>Errors\<close>

text \<open>Every \<^verbatim>\<open>raise\<close> is a value: a function that can raise returns \<open>error + 'a\<close>.
  \<open>Raised\<close> stands for an exception that comes out of a collaborator (the agent's step,
  the tool sandbox, the JSON codec), with its text.\<close>

datatype error =
    ValueError string
  | TypeError
  | IndexError
  | AttributeError
  | AssertionError
  | LettaAgentNotFoundError
  | NoResultFound
  | Raised string

section \<open>The in-context buffer\<close>

text \<open>\<^verbatim>\<open>letta_agent.messages\<close> is a list of dictionaries with the keys \<^verbatim>\<open>role\<close>,
  \<^verbatim>\<open>content\<close> and \<^verbatim>\<open>function_call\<close> (itself a dictionary with \<^verbatim>\<open>name\<close> and
  \<^verbatim>\<open>arguments\<close>); \<^verbatim>\<open>get\<close> on a missing key gives \<^verbatim>\<open>None\<close>. The command processor
  changes this list in place, as the list the agent object owns; the functions below return
  the list as the command leaves it.\<close>

record function_call =
  name :: string
  arguments :: string

record msg =
  role :: string
  content :: "string option"
  function_call :: "function_call option"

text \<open>\<^verbatim>\<open>list.pop()\<close> removes the last element and raises on an empty list.\<close>

definition list_pop :: "'a list \<Rightarrow> error + 'a list" where
  "list_pop xs = (if xs = [] then Inl IndexError else Inr (butlast xs))"

text \<open>\<^verbatim>\<open>for _ in range(k): messages.pop()\<close>\<close>

fun pop_times :: "nat \<Rightarrow> 'a list \<Rightarrow> error + 'a list" where
  "pop_times 0 xs = Inr xs"
| "pop_times (Suc k) xs = (case list_pop xs of Inl e \<Rightarrow> Inl e | Inr ys \<Rightarrow> pop_times k ys)"

subsection \<open>pop\<close>

definition MIN_MESSAGES :: nat where
  "MIN_MESSAGES = 2"

text \<open>\<^verbatim>\<open>pop_amount = int(command[1]) if len(command) > 1 and command[1].isdigit() else 3\<close>
  on \<^verbatim>\<open>command = command.strip().split()\<close>.\<close>

definition pop_amount_of :: "string \<Rightarrow> nat" where
  "pop_amount_of command =
     (let ws = split_str (strip command)
      in if length ws > 1 \<and> isdigit (ws ! 1) then int_of_digits (ws ! 1) else 3)"

text \<open>The three branches on \<^verbatim>\<open>n_messages\<close>; the two that only log leave the buffer as it is.
  \<^verbatim>\<open>n_messages - pop_amount\<close> is a subtraction of Python integers.\<close>

definition pop_messages :: "nat \<Rightarrow> msg list \<Rightarrow> error + msg list" where
  "pop_messages pop_amount msgs =
     (let n_messages = length msgs
      in if n_messages \<le> MIN_MESSAGES then Inr msgs
         else if int n_messages - int pop_amount < int MIN_MESSAGES then Inr msgs
         else pop_times (min pop_amount (length msgs)) msgs)"

subsection \<open>retry\<close>

text \<open>
  \<^verbatim>\<open>
  while len(letta_agent.messages) > 0:
      if letta_agent.messages[-1].get("role") == "user":
          letta_agent.messages.pop()
          break
      letta_agent.messages.pop()
  \<close>
\<close>

function retry_messages :: "msg list \<Rightarrow> msg list" where
  "retry_messages msgs =
     (if length msgs > 0
      then (if role (last msgs) = ''user'' then butlast msgs
            else retry_messages (butlast msgs))
      else msgs)"
  by pat_completeness auto
termination
  by (relation "measure length") auto

declare retry_messages.simps [simp del]

subsection \<open>rethink\<close>

text \<open>\<^verbatim>\<open>command[len("rethink "):].strip()\<close>; \<^verbatim>\<open>rewrite\<close> has the same eight characters.\<close>

definition command_text :: "string \<Rightarrow> string" where
  "command_text command = strip (drop (length ''rethink '') command)"

text \<open>\<^verbatim>\<open>for x in range(len(messages) - 1, 0, -1)\<close>: the index runs from the last one down to 1,
  and index 0 is never visited. \<open>rethink_from x\<close> is the loop from index \<open>x\<close> on.\<close>

fun rethink_from :: "nat \<Rightarrow> string \<Rightarrow> msg list \<Rightarrow> msg list" where
  "rethink_from 0 text msgs = msgs"
| "rethink_from (Suc x) text msgs =
     (if role (msgs ! Suc x) = ''assistant''
      then msgs[Suc x := (msgs ! Suc x)\<lparr>content := Some text\<rparr>]
      else rethink_from x text msgs)"

definition rethink_messages :: "string \<Rightarrow> msg list \<Rightarrow> msg list" where
  "rethink_messages command msgs =
     (if length command < length ''rethink '' then msgs
      else rethink_from (length msgs - 1) (command_text command) msgs)"

section \<open>Data of the server\<close>

text \<open>JSON values, as \<^verbatim>\<open>json.loads\<close> builds them.\<close>

datatype json =
    JNull
  | JBool bool
  | JNum int
  | JStr string
  | JArr "json list"
  | JObj "(string \<times> json) list"

type_synonym agent_id = string
type_synonym user_id = string

datatype user = User user_id

text \<open>\<^verbatim>\<open>AgentType\<close>: the four tags \<^verbatim>\<open>load_agent\<close> has a class for, and one for any other.\<close>

datatype agent_type =
    memgpt_agent
  | o1_agent
  | offline_memory_agent
  | chat_only_agent
  | unknown_agent_type

text \<open>The persisted \<^verbatim>\<open>AgentState\<close>, with the in-context buffer it refers to.\<close>

record agent_state =
  ident :: agent_id
  agent_type :: agent_type
  created_by_id :: "user_id option"
  message_buffer :: "msg list"

text \<open>The agent object in memory (\<^verbatim>\<open>Agent\<close>, \<^verbatim>\<open>O1Agent\<close>, \<^verbatim>\<open>OfflineMemoryAgent\<close>,
  \<^verbatim>\<open>ChatOnlyAgent\<close>, told apart by the tag of its state).\<close>

record agent =
  state :: agent_state
  messages :: "msg list"
  agent_user :: user

text \<open>\<^verbatim>\<open>Message\<close> objects, the input of a step and the records of recall memory. Time
  stamps are natural numbers.\<close>

record Message =
  message_id :: string
  message_agent :: agent_id
  message_role :: string
  message_text :: "string option"
  created_at :: nat

record usage =
  completion_tokens :: nat
  prompt_tokens :: nat
  total_tokens :: nat
  step_count :: nat

text \<open>\<^verbatim>\<open>LettaUsageStatistics()\<close>\<close>

definition LettaUsageStatistics :: usage where
  "LettaUsageStatistics =
     \<lparr>completion_tokens = 0, prompt_tokens = 0, total_tokens = 0, step_count = 0\<rparr>"

text \<open>\<^verbatim>\<open>input_messages: Union[Message, List[Message]]\<close>; an element of a list that is not
  a \<^verbatim>\<open>Message\<close> is \<open>NotMessage\<close>.\<close>

datatype batch_item = IsMessage Message | NotMessage

datatype step_input = Single Message | Batch "batch_item list"

text \<open>What a row of the agent table gives \<^verbatim>\<open>agent_manager.get_agent_by_id\<close>: the manager
  raises \<^verbatim>\<open>NoResultFound\<close> (which \<^verbatim>\<open>user_message\<close> catches), or returns \<^verbatim>\<open>None\<close>
  (which \<^verbatim>\<open>load_agent\<close> tests for), or returns the state.\<close>

datatype agent_row = NoRow | NullRow | Row agent_state

text \<open>What the server does that another request can observe, in the order it happens:
  taking and releasing the lock of an agent, building the agent object from the persisted state,
  \<^verbatim>\<open>save_agent\<close>, \<^verbatim>\<open>Agent.step\<close>, \<^verbatim>\<open>interface.step_yield\<close> and the two printing calls
  of the interface.\<close>

datatype event =
    Acquire agent_id
  | Release agent_id
  | Load agent_id
  | Save agent_id
  | Step agent_id
  | StepYield agent_id
  | Print "msg list"
  | PrintRaw "msg list"

record server =
  users :: "user_id \<Rightarrow> user option"
  default_user :: user
  agents :: "agent_id \<Rightarrow> agent_row"
  recall :: "Message list"
  events :: "event list"

definition emit :: "event \<Rightarrow> server \<Rightarrow> server" where
  "emit e srv = srv\<lparr>events := events srv @ [e]\<rparr>"

section \<open>Collaborators\<close>

text \<open>Code that \<^verbatim>\<open>server.py\<close> calls and that is not part of it is a parameter of the model:
  \<^item> \<open>Agent_step\<close>: \<^verbatim>\<open>Agent.step\<close>, which returns the usage statistics and changes the agent,
    or raises;
  \<^item> \<open>rebuild_system_prompt\<close>, \<open>attach_source\<close>, \<open>str_memory\<close>, \<open>str_passage_manager\<close>:
    methods and printed forms of the agent object;
  \<^item> \<open>json_loads\<close>, \<open>json_dumps\<close>: \<^verbatim>\<open>letta.utils\<close>;
  \<^item> \<open>package_user_message\<close>, \<open>package_system_message\<close>, \<open>get_heartbeat\<close>,
    \<open>get_token_limit_warning\<close>: \<^verbatim>\<open>letta.system\<close>;
  \<^item> \<open>new_message_id\<close>, \<open>utc_now\<close>: the defaults \<^verbatim>\<open>Message(...)\<close> fills in;
  \<^item> \<open>to_letta_message\<close>: \<^verbatim>\<open>Message.to_letta_message\<close>.\<close>

datatype letta_message = LettaMessage string

record env =
  Agent_step :: "agent \<Rightarrow> Message list \<Rightarrow> error + usage \<times> agent"
  rebuild_system_prompt :: "agent \<Rightarrow> agent"
  attach_source :: "agent \<Rightarrow> user \<Rightarrow> int \<Rightarrow> error + agent"
  str_memory :: "agent \<Rightarrow> string"
  str_passage_manager :: "agent \<Rightarrow> string"
  json_loads :: "string \<Rightarrow> error + json"
  json_dumps :: "json \<Rightarrow> string"
  package_user_message :: "string \<Rightarrow> nat option \<Rightarrow> string"
  package_system_message :: "string \<Rightarrow> string"
  get_heartbeat :: step_input
  get_token_limit_warning :: step_input
  new_message_id :: string
  utc_now :: nat
  to_letta_message :: "Message \<Rightarrow> letta_message list"

section \<open>The in-context buffer, continued\<close>

subsection \<open>rewrite\<close>

text \<open>The arguments of a tool call are JSON text. \<^verbatim>\<open>json_loads\<close> and \<^verbatim>\<open>json_dumps\<close>
  of \<^verbatim>\<open>letta.utils\<close> are parameters of the model; what the code does itself is the
  assignment \<^verbatim>\<open>args["message"] = text\<close>, which needs a dictionary.\<close>

definition set_item :: "json \<Rightarrow> string \<Rightarrow> json \<Rightarrow> error + json" where
  "set_item args k v =
     (case args of JObj kvs \<Rightarrow> Inr (JObj (AList.update k v kvs)) | _ \<Rightarrow> Inl TypeError)"

text \<open>The body of the loop at an assistant message: \<^verbatim>\<open>get("function_call")\<close> may be
  \<^verbatim>\<open>None\<close>, and then \<^verbatim>\<open>.get("arguments")\<close> raises.\<close>

definition rewrite_at :: "env \<Rightarrow> string \<Rightarrow> msg \<Rightarrow> error + msg" where
  "rewrite_at env text m =
     (case function_call m of
        None \<Rightarrow> Inl AttributeError
      | Some fc \<Rightarrow>
          (case json_loads env (arguments fc) of
             Inl e \<Rightarrow> Inl e
           | Inr args \<Rightarrow>
               (case set_item args ''message'' (JStr text) of
                  Inl e \<Rightarrow> Inl e
                | Inr args' \<Rightarrow>
                    Inr (m\<lparr>function_call := Some (fc\<lparr>arguments := json_dumps env args'\<rparr>)\<rparr>))))"

fun rewrite_from :: "env \<Rightarrow> nat \<Rightarrow> string \<Rightarrow> msg list \<Rightarrow> error + msg list" where
  "rewrite_from env 0 text msgs = Inr msgs"
| "rewrite_from env (Suc x) text msgs =
     (if role (msgs ! Suc x) = ''assistant''
      then (case rewrite_at env text (msgs ! Suc x) of
              Inl e \<Rightarrow> Inl e
            | Inr m \<Rightarrow> Inr (msgs[Suc x := m]))
      else rewrite_from env x text msgs)"

definition rewrite_messages :: "env \<Rightarrow> string \<Rightarrow> msg list \<Rightarrow> error + msg list" where
  "rewrite_messages env command msgs =
     (if length command < length ''rewrite '' then Inr msgs
      else rewrite_from env (length msgs - 1) (command_text command) msgs)"

section \<open>Loading and stepping an agent\<close>

text \<open>The managers behind the server are tables of the \<open>server\<close> record.
  \<^verbatim>\<open>user_manager.get_user_by_id\<close> raises \<^verbatim>\<open>NoResultFound\<close> for an unknown user,
  \<^verbatim>\<open>get_user_or_default\<close> falls back to the default user. The \<^verbatim>\<open>actor\<close> and
  \<^verbatim>\<open>interface\<close> arguments do not influence what is modelled and are left out of the
  lookups.\<close>

definition get_user_by_id :: "server \<Rightarrow> user_id \<Rightarrow> error + user" where
  "get_user_by_id srv user_id =
     (case users srv user_id of None \<Rightarrow> Inl NoResultFound | Some u \<Rightarrow> Inr u)"

definition get_user_or_default :: "server \<Rightarrow> user_id \<Rightarrow> user" where
  "get_user_or_default srv user_id =
     (case users srv user_id of None \<Rightarrow> default_user srv | Some u \<Rightarrow> u)"

definition get_agent_by_id :: "server \<Rightarrow> agent_id \<Rightarrow> error + agent_state option" where
  "get_agent_by_id srv agent_id =
     (case agents srv agent_id of
        NoRow \<Rightarrow> Inl NoResultFound
      | NullRow \<Rightarrow> Inr None
      | Row st \<Rightarrow> Inr (Some st))"

text \<open>Modelled from the spec: \<^verbatim>\<open>save_agent\<close> of \<^verbatim>\<open>letta.agent\<close> is not part of
  \<^verbatim>\<open>server.py\<close>. It is the persistence boundary, "external save/load of agent state": the
  state of the agent object and its buffer are written to the row of the agent.\<close>

definition save_agent :: "agent \<Rightarrow> server \<Rightarrow> server" where
  "save_agent ag srv =
     emit (Save (ident (state ag)))
       (srv\<lparr>agents := (agents srv)
          (ident (state ag) := Row ((state ag)\<lparr>message_buffer := messages ag\<rparr>))\<rparr>)"

text \<open>Modelled from the spec: the constructors of the agent classes are not part of
  \<^verbatim>\<open>server.py\<close>. The agent object holds an "in-memory copy" of the state, and its buffer
  is the one the state refers to.\<close>

definition new_agent :: "agent_state \<Rightarrow> user \<Rightarrow> agent" where
  "new_agent st actor = \<lparr>state = st, messages = message_buffer st, agent_user = actor\<rparr>"

text \<open>The body of \<^verbatim>\<open>with agent_lock:\<close> in \<^verbatim>\<open>load_agent\<close>.\<close>

definition load_agent_locked :: "env \<Rightarrow> agent_id \<Rightarrow> server \<Rightarrow> (error + agent) \<times> server" where
  "load_agent_locked env agent_id srv =
     (case get_agent_by_id srv agent_id of
        Inl e \<Rightarrow> (Inl e, srv)
      | Inr None \<Rightarrow> (Inl LettaAgentNotFoundError, srv)
      | Inr (Some agent_state) \<Rightarrow>
          (case created_by_id agent_state of
             None \<Rightarrow>
               (Inl (ValueError (''Agent (agent_id='' @ agent_id @ '') does not have a user_id'')),
                srv)
           | Some creator \<Rightarrow>
               (case get_user_by_id srv creator of
                  Inl e \<Rightarrow> (Inl e, srv)
                | Inr actor \<Rightarrow>
                    if agent_type agent_state \<in>
                         {memgpt_agent, o1_agent, offline_memory_agent, chat_only_agent}
                    then (let ag = rebuild_system_prompt env (new_agent agent_state actor)
                          in (Inr ag, save_agent ag (emit (Load agent_id) srv)))
                    else (Inl (ValueError ''Invalid agent type''), srv))))"

text \<open>\<^verbatim>\<open>load_agent\<close>: the lock of the agent is taken, the body runs, and the lock is released
  when the \<^verbatim>\<open>with\<close> block is left, by \<^verbatim>\<open>return\<close> or by an exception.\<close>

definition load_agent :: "env \<Rightarrow> agent_id \<Rightarrow> user \<Rightarrow> server \<Rightarrow> (error + agent) \<times> server" where
  "load_agent env agent_id actor srv =
     (case load_agent_locked env agent_id (emit (Acquire agent_id) srv) of
        (r, srv') \<Rightarrow> (r, emit (Release agent_id) srv'))"

text \<open>The input validation of \<^verbatim>\<open>_step\<close>.\<close>

fun the_Message :: "batch_item \<Rightarrow> Message option" where
  "the_Message (IsMessage m) = Some m"
| "the_Message NotMessage = None"

definition input_list :: "step_input \<Rightarrow> error + Message list" where
  "input_list input_messages =
     (case input_messages of
        Single m \<Rightarrow> Inr [m]
      | Batch xs \<Rightarrow>
          if list_all (\<lambda>x. the_Message x \<noteq> None) xs then Inr (List.map_filter the_Message xs)
          else Inl (ValueError
            ''messages should be a Message or a list of Message, got <class 'list'>''))"

text \<open>\<^verbatim>\<open>SyncServer._step\<close>. \<^verbatim>\<open>load_agent\<close> never returns \<^verbatim>\<open>None\<close>, so the
  \<^verbatim>\<open>KeyError\<close> branch is not taken; when \<^verbatim>\<open>load_agent\<close> raises, \<^verbatim>\<open>letta_agent\<close> is still
  \<^verbatim>\<open>None\<close> in the \<^verbatim>\<open>finally\<close> block and \<^verbatim>\<open>step_yield\<close> is not called.\<close>

definition server_step ::
  "env \<Rightarrow> user \<Rightarrow> agent_id \<Rightarrow> step_input \<Rightarrow> server \<Rightarrow> (error + usage) \<times> server" where
  "server_step env actor agent_id input_messages srv =
     (case input_list input_messages of
        Inl e \<Rightarrow> (Inl e, srv)
      | Inr ms \<Rightarrow>
          (case load_agent env agent_id actor srv of
             (Inl e, srv1) \<Rightarrow> (Inl e, srv1)
           | (Inr letta_agent, srv1) \<Rightarrow>
               (case Agent_step env letta_agent ms of
                  Inl e \<Rightarrow> (Inl e, emit (StepYield agent_id) (emit (Step agent_id) srv1))
                | Inr (usage_stats, letta_agent') \<Rightarrow>
                    (Inr usage_stats,
                     emit (StepYield agent_id)
                       (save_agent letta_agent' (emit (Step agent_id) srv1))))))"

text \<open>A call of \<^verbatim>\<open>_step\<close> with keyword arguments. Python binds each keyword to the parameter
  of that name and raises \<^verbatim>\<open>TypeError\<close> when there is no such parameter or when a parameter
  without a default gets no value. \<^verbatim>\<open>_step\<close> has the parameters \<^verbatim>\<open>actor\<close>,
  \<^verbatim>\<open>agent_id\<close>, \<^verbatim>\<open>input_messages\<close> and \<^verbatim>\<open>interface\<close>, the last with a default.\<close>

datatype kwarg = KUser user | KStr string | KInput step_input

definition step_parameters :: "(string \<times> bool) list" where
  "step_parameters =
     [(''actor'', False), (''agent_id'', False), (''input_messages'', False),
      (''interface'', True)]"

definition call_step ::
  "env \<Rightarrow> (string \<times> kwarg) list \<Rightarrow> server \<Rightarrow> (error + usage) \<times> server" where
  "call_step env kwargs srv =
     (if \<exists>k \<in> set (map fst kwargs). k \<notin> set (map fst step_parameters)
      then (Inl TypeError, srv)
      else if \<exists>(p, has_default) \<in> set step_parameters.
                \<not> has_default \<and> p \<notin> set (map fst kwargs)
      then (Inl TypeError, srv)
      else (case (map_of kwargs ''actor'', map_of kwargs ''agent_id'',
                  map_of kwargs ''input_messages'') of
              (Some (KUser actor), Some (KStr agent_id), Some (KInput input_messages)) \<Rightarrow>
                server_step env actor agent_id input_messages srv
            | _ \<Rightarrow> (Inl TypeError, srv)))"

section \<open>The command processor\<close>

text \<open>\<^verbatim>\<open>SyncServer._command\<close> returns usage statistics, or a string for \<^verbatim>\<open>memory\<close>.\<close>

datatype reply = Usage usage | Text string

text \<open>\<^verbatim>\<open>int(s)\<close> on one word: an optional sign and decimal digits.\<close>

definition python_int :: "string \<Rightarrow> int option" where
  "python_int s =
     (case s of
        [] \<Rightarrow> None
      | c # cs \<Rightarrow>
          if c = CHR ''-'' then (if isdigit cs then Some (- int (int_of_digits cs)) else None)
          else if c = CHR ''+'' then (if isdigit cs then Some (int (int_of_digits cs)) else None)
          else if isdigit s then Some (int (int_of_digits s)) else None)"

text \<open>\<^verbatim>\<open>str\<close> of a list of words, as \<^verbatim>\<open>ValueError(command)\<close> shows it once
  \<^verbatim>\<open>command\<close> has been split.\<close>

fun join_words :: "string list \<Rightarrow> string" where
  "join_words [] = []"
| "join_words [w] = [CHR 0x27] @ w @ [CHR 0x27]"
| "join_words (w # ws) = [CHR 0x27] @ w @ [CHR 0x27] @ '', '' @ join_words ws"

definition str_list :: "string list \<Rightarrow> string" where
  "str_list ws = ''['' @ join_words ws @ '']''"

text \<open>\<^verbatim>\<open>amount = int(command[1]) if len(command) > 1 and command[1].isdigit() else 0\<close>\<close>

definition dump_amount_of :: "string \<Rightarrow> nat" where
  "dump_amount_of command =
     (let ws = split_str (strip command)
      in if length ws > 1 \<and> isdigit (ws ! 1) then int_of_digits (ws ! 1) else 0)"

text \<open>The branches of \<^verbatim>\<open>_command\<close>, in the order of the source, on the agent that
  \<^verbatim>\<open>load_agent\<close> returned. The result is what is returned or raised, the agent object as
  the command leaves it, and the server. The two last commands call \<^verbatim>\<open>_step\<close> with the
  keyword \<^verbatim>\<open>input_message\<close>.\<close>

definition command_on ::
  "env \<Rightarrow> user \<Rightarrow> user_id \<Rightarrow> agent_id \<Rightarrow> string \<Rightarrow> agent \<Rightarrow> server \<Rightarrow>
     (error + reply) \<times> agent \<times> server" where
  "command_on env actor user_id agent_id command letta_agent srv =
     (let c = lower command; usage = Inr (Usage LettaUsageStatistics) in
      if c = ''exit'' then (Inl (ValueError command), letta_agent, srv)
      else if c = ''save'' \<or> c = ''savechat'' then (usage, letta_agent, save_agent letta_agent srv)
      else if c = ''attach'' then
        (let ws = split_str (strip command) in
         case (if 1 < length ws then python_int (ws ! 1) else None) of
           None \<Rightarrow> (Inl (ValueError (str_list ws)), letta_agent, srv)
         | Some data_source \<Rightarrow>
             (case get_user_by_id srv user_id of
                Inl e \<Rightarrow> (Inl e, letta_agent, srv)
              | Inr u \<Rightarrow>
                  (case attach_source env letta_agent u data_source of
                     Inl e \<Rightarrow> (Inl e, letta_agent, srv)
                   | Inr ag \<Rightarrow> (usage, ag, srv))))
      else if c = ''dump'' \<or> startswith c ''dump '' then
        (let amount = dump_amount_of command; msgs = messages letta_agent in
         if amount = 0 then (usage, letta_agent, emit (Print msgs) srv)
         else (usage, letta_agent,
               emit (Print (drop (length msgs - min amount (length msgs)) msgs)) srv))
      else if c = ''dumpraw'' then (usage, letta_agent, emit (PrintRaw (messages letta_agent)) srv)
      else if c = ''memory'' then
        (Inr (Text ([CHR 0x0A] @ ''Dumping memory contents:'' @ [CHR 0x0A] @ [CHR 0x0A]
                    @ str_memory env letta_agent @ [CHR 0x0A]
                    @ str_passage_manager env letta_agent)),
         letta_agent, srv)
      else if c = ''pop'' \<or> startswith c ''pop '' then
        (case pop_messages (pop_amount_of command) (messages letta_agent) of
           Inl e \<Rightarrow> (Inl e, letta_agent, srv)
         | Inr msgs \<Rightarrow> (usage, letta_agent\<lparr>messages := msgs\<rparr>, srv))
      else if c = ''retry'' then
        (usage, letta_agent\<lparr>messages := retry_messages (messages letta_agent)\<rparr>, srv)
      else if c = ''rethink'' \<or> startswith c ''rethink '' then
        (usage, letta_agent\<lparr>messages := rethink_messages command (messages letta_agent)\<rparr>, srv)
      else if c = ''rewrite'' \<or> startswith c ''rewrite '' then
        (case rewrite_messages env command (messages letta_agent) of
           Inl e \<Rightarrow> (Inl e, letta_agent, srv)
         | Inr msgs \<Rightarrow> (usage, letta_agent\<lparr>messages := msgs\<rparr>, srv))
      else if c = ''wipe'' then (Inl (ValueError command), letta_agent, srv)
      else if c = ''heartbeat'' then
        (case call_step env
                [(''actor'', KUser actor), (''agent_id'', KStr agent_id),
                 (''input_message'', KInput (get_heartbeat env))] srv of
           (Inl e, srv') \<Rightarrow> (Inl e, letta_agent, srv')
         | (Inr u, srv') \<Rightarrow> (Inr (Usage u), letta_agent, srv'))
      else if c = ''memorywarning'' then
        (case call_step env
                [(''actor'', KUser actor), (''agent_id'', KStr agent_id),
                 (''input_message'', KInput (get_token_limit_warning env))] srv of
           (Inl e, srv') \<Rightarrow> (Inl e, letta_agent, srv')
         | (Inr u, srv') \<Rightarrow> (Inr (Usage u), letta_agent, srv'))
      else (usage, letta_agent, srv))"

text \<open>\<^verbatim>\<open>_command\<close>: the agent is loaded first; when that raises there is no agent object.\<close>

definition server_command ::
  "env \<Rightarrow> user_id \<Rightarrow> agent_id \<Rightarrow> string \<Rightarrow> server \<Rightarrow>
     (error + reply) \<times> agent option \<times> server" where
  "server_command env user_id agent_id command srv =
     (let actor = get_user_or_default srv user_id in
      case load_agent env agent_id actor srv of
        (Inl e, srv1) \<Rightarrow> (Inl e, None, srv1)
      | (Inr letta_agent, srv1) \<Rightarrow>
          (case command_on env actor user_id agent_id command letta_agent srv1 of
             (r, ag, srv2) \<Rightarrow> (r, Some ag, srv2)))"

section \<open>Submitting messages\<close>

text \<open>\<^verbatim>\<open>message: Union[str, Message]\<close>\<close>

datatype message_arg = Str string | Obj Message

text \<open>\<^verbatim>\<open>Message(agent_id=..., role=..., text=..., created_at=timestamp)\<close>, or without
  \<^verbatim>\<open>created_at\<close> when there is no timestamp.\<close>

definition new_Message :: "env \<Rightarrow> agent_id \<Rightarrow> string \<Rightarrow> string \<Rightarrow> nat option \<Rightarrow> Message" where
  "new_Message env agent_id r t timestamp =
     \<lparr>message_id = new_message_id env, message_agent = agent_id, message_role = r,
      message_text = Some t,
      created_at = (case timestamp of Some ts \<Rightarrow> ts | None \<Rightarrow> utc_now env)\<rparr>"

definition invalid_input :: "string \<Rightarrow> string" where
  "invalid_input s = ''Invalid input: '' @ [CHR 0x27] @ s @ [CHR 0x27]"

text \<open>The two lookups at the head of \<^verbatim>\<open>user_message\<close> and \<^verbatim>\<open>system_message\<close>:
  \<^verbatim>\<open>NoResultFound\<close> becomes \<^verbatim>\<open>ValueError\<close>.\<close>

definition lookup_user_and_agent ::
  "server \<Rightarrow> user_id \<Rightarrow> agent_id \<Rightarrow> error + user" where
  "lookup_user_and_agent srv user_id agent_id =
     (case get_user_by_id srv user_id of
        Inl e \<Rightarrow>
          Inl (if e = NoResultFound
               then ValueError (''User user_id='' @ user_id @ '' does not exist'') else e)
      | Inr actor \<Rightarrow>
          (case get_agent_by_id srv agent_id of
             Inl e \<Rightarrow>
               Inl (if e = NoResultFound
                    then ValueError (''Agent agent_id='' @ agent_id @ '' does not exist'') else e)
           | Inr agent \<Rightarrow> Inr actor))"

definition user_message ::
  "env \<Rightarrow> user_id \<Rightarrow> agent_id \<Rightarrow> message_arg \<Rightarrow> nat option \<Rightarrow> server \<Rightarrow>
     (error + usage) \<times> server" where
  "user_message env user_id agent_id message timestamp srv =
     (case lookup_user_and_agent srv user_id agent_id of
        Inl e \<Rightarrow> (Inl e, srv)
      | Inr actor \<Rightarrow>
          (case message of
             Str s \<Rightarrow>
               if length s = 0 then (Inl (ValueError (invalid_input s)), srv)
               else if startswith s ''/'' then (Inl (ValueError (invalid_input s)), srv)
               else server_step env actor agent_id
                      (Single (new_Message env agent_id ''user''
                         (package_user_message env s timestamp) timestamp)) srv
           | Obj m \<Rightarrow> server_step env actor agent_id (Single m) srv))"

text \<open>\<^verbatim>\<open>system_message\<close> checks the text a second time, on the \<^verbatim>\<open>Message\<close> object, and
  overrides its time stamp.\<close>

definition checked_system_message ::
  "env \<Rightarrow> user \<Rightarrow> agent_id \<Rightarrow> Message \<Rightarrow> nat option \<Rightarrow> server \<Rightarrow> (error + usage) \<times> server" where
  "checked_system_message env actor agent_id m timestamp srv =
     (case message_text m of
        None \<Rightarrow> (Inl (ValueError (invalid_input ''None'')), srv)
      | Some t \<Rightarrow>
          if length t = 0 then (Inl (ValueError (invalid_input t)), srv)
          else if startswith t ''/'' then (Inl (ValueError (invalid_input t)), srv)
          else server_step env actor agent_id
                 (Single (case timestamp of None \<Rightarrow> m | Some ts \<Rightarrow> m\<lparr>created_at := ts\<rparr>)) srv)"

definition system_message ::
  "env \<Rightarrow> user_id \<Rightarrow> agent_id \<Rightarrow> message_arg \<Rightarrow> nat option \<Rightarrow> server \<Rightarrow>
     (error + usage) \<times> server" where
  "system_message env user_id agent_id message timestamp srv =
     (case lookup_user_and_agent srv user_id agent_id of
        Inl e \<Rightarrow> (Inl e, srv)
      | Inr actor \<Rightarrow>
          (case message of
             Str s \<Rightarrow>
               if length s = 0 then (Inl (ValueError (invalid_input s)), srv)
               else if startswith s ''/'' then (Inl (ValueError (invalid_input s)), srv)
               else checked_system_message env actor agent_id
                      (new_Message env agent_id ''system''
                         (package_system_message env s) timestamp) timestamp srv
           | Obj m \<Rightarrow> checked_system_message env actor agent_id m timestamp srv))"

section \<open>Running a tool from source\<close>

record sandbox_run_result =
  func_return :: string
  stdout :: "string list"
  stderr :: "string list"

record FunctionReturn =
  fr_id :: string
  function_call_id :: string
  date :: nat
  status :: string
  function_return :: string
  fr_stdout :: "string list"
  fr_stderr :: "string list"

record tool =
  tool_name :: "string option"
  source_code :: string

text \<open>What \<^verbatim>\<open>run_tool_from_source\<close> calls:
  \<^item> \<open>py_json_loads\<close>: \<^verbatim>\<open>json.loads\<close>, \<open>None\<close> for \<^verbatim>\<open>JSONDecodeError\<close>;
  \<^item> \<open>Tool_new\<close>: the constructor \<^verbatim>\<open>Tool(name=..., source_code=...)\<close>, which may raise;
  \<^item> \<open>sandbox_run\<close>: \<^verbatim>\<open>ToolExecutionSandbox(...).run(...)\<close>, which returns its result (with
    \<^verbatim>\<open>func_return\<close> already as \<^verbatim>\<open>str\<close> shows it) or raises an exception, given by its text;
  \<^item> \<open>format_exc\<close>: \<^verbatim>\<open>traceback.format_exc()\<close> for that exception;
  \<^item> \<open>get_utc_time\<close>;
  \<^item> \<open>MAX_ERROR_MESSAGE_CHAR_LIMIT\<close> of \<^verbatim>\<open>letta.constants\<close>.\<close>

record tool_env =
  py_json_loads :: "string \<Rightarrow> json option"
  Tool_new :: "string option \<Rightarrow> string \<Rightarrow> error + tool"
  sandbox_run :: "string \<Rightarrow> json \<Rightarrow> user_id \<Rightarrow> tool \<Rightarrow> string + sandbox_run_result"
  format_exc :: "string \<Rightarrow> string"
  get_utc_time :: nat
  MAX_ERROR_MESSAGE_CHAR_LIMIT :: nat

definition get_error_msg_for_func_return :: "tool_env \<Rightarrow> string \<Rightarrow> string \<Rightarrow> string" where
  "get_error_msg_for_func_return tenv tname exception_message =
     (let error_msg = ''Error executing tool '' @ tname @ '': '' @ exception_message
      in if length error_msg > MAX_ERROR_MESSAGE_CHAR_LIMIT tenv
         then take (MAX_ERROR_MESSAGE_CHAR_LIMIT tenv) error_msg
         else error_msg)"

text \<open>The \<^verbatim>\<open>try\<close> block of \<^verbatim>\<open>run_tool_from_source\<close> and its handler.\<close>

definition run_in_sandbox ::
  "tool_env \<Rightarrow> user_id \<Rightarrow> json \<Rightarrow> tool \<Rightarrow> string \<Rightarrow> FunctionReturn" where
  "run_in_sandbox tenv user_id tool_args_dict tool_obj tname =
     (case sandbox_run tenv tname tool_args_dict user_id tool_obj of
        Inr sandbox_run_result \<Rightarrow>
          (let function_response = func_return sandbox_run_result;
               out = filter (\<lambda>s. strip s \<noteq> []) (stdout sandbox_run_result);
               err = filter (\<lambda>s. strip s \<noteq> []) (stderr sandbox_run_result)
           in if err \<noteq> []
              then \<lparr>fr_id = ''null'', function_call_id = ''null'', date = get_utc_time tenv,
                    status = ''error'',
                    function_return = get_error_msg_for_func_return tenv tname (last err),
                    fr_stdout = out, fr_stderr = err\<rparr>
              else \<lparr>fr_id = ''null'', function_call_id = ''null'', date = get_utc_time tenv,
                    status = ''success'', function_return = function_response,
                    fr_stdout = out, fr_stderr = err\<rparr>)
      | Inl e \<Rightarrow>
          \<lparr>fr_id = ''null'', function_call_id = ''null'', date = get_utc_time tenv,
           status = ''error'', function_return = get_error_msg_for_func_return tenv tname e,
           fr_stdout = [[]], fr_stderr = [format_exc tenv e]\<rparr>)"

definition run_tool_from_source ::
  "tool_env \<Rightarrow> user_id \<Rightarrow> string \<Rightarrow> string \<Rightarrow> string option \<Rightarrow> string option \<Rightarrow>
     error + FunctionReturn" where
  "run_tool_from_source tenv user_id tool_args tool_source tool_source_type tname =
     (case py_json_loads tenv tool_args of
        None \<Rightarrow> Inl (ValueError ''Invalid JSON string for tool_args'')
      | Some tool_args_dict \<Rightarrow>
          if tool_source_type \<noteq> None \<and> tool_source_type \<noteq> Some ''python''
          then Inl (ValueError ''Only Python source code is supported at this time'')
          else (case Tool_new tenv tname tool_source of
                  Inl e \<Rightarrow> Inl e
                | Inr tool_obj \<Rightarrow>
                    (case tool_name tool_obj of
                       None \<Rightarrow> Inl AssertionError
                     | Some n \<Rightarrow> Inr (run_in_sandbox tenv user_id tool_args_dict tool_obj n))))"

section \<open>Listing recall memory\<close>

text \<open>\<^verbatim>\<open>message_manager.get_message_by_id\<close>: the record with that identifier, if any.\<close>

definition get_message_by_id :: "server \<Rightarrow> string \<Rightarrow> Message option" where
  "get_message_by_id srv i = find (\<lambda>m. message_id m = i) (recall srv)"

text \<open>Modelled from the spec: \<^verbatim>\<open>message_manager.list_messages_for_agent\<close> is not part of
  \<^verbatim>\<open>server.py\<close>. By the contract of recall memory, \<^verbatim>\<open>list_messages(agent_id, start_date?,
  end_date?, limit, ascending)\<close> gives an ordered sequence bounded by time stamps: the records
  of the agent created strictly later than \<^verbatim>\<open>start_date\<close> and strictly earlier than
  \<^verbatim>\<open>end_date\<close>, in creation order when \<^verbatim>\<open>ascending\<close> and in the exact reverse otherwise,
  cut to the first \<^verbatim>\<open>limit\<close> of them.\<close>

definition in_bounds :: "agent_id \<Rightarrow> nat option \<Rightarrow> nat option \<Rightarrow> Message \<Rightarrow> bool" where
  "in_bounds agent_id start_date end_date m =
     (message_agent m = agent_id
      \<and> (case start_date of None \<Rightarrow> True | Some t \<Rightarrow> t < created_at m)
      \<and> (case end_date of None \<Rightarrow> True | Some t \<Rightarrow> created_at m < t))"

definition list_messages_for_agent ::
  "server \<Rightarrow> agent_id \<Rightarrow> nat option \<Rightarrow> nat option \<Rightarrow> nat option \<Rightarrow> bool \<Rightarrow> Message list" where
  "list_messages_for_agent srv agent_id start_date end_date limit ascending =
     (let ordered = sort_key created_at (filter (in_bounds agent_id start_date end_date) (recall srv));
          listed = (if ascending then ordered else rev ordered)
      in case limit of None \<Rightarrow> listed | Some n \<Rightarrow> take n listed)"

text \<open>\<^verbatim>\<open>get_message_by_id(after).created_at if after else None\<close>: an absent or empty
  identifier gives no bound, an unknown one makes the attribute access fail. The cursors
  \<^verbatim>\<open>after\<close> and \<^verbatim>\<open>before\<close> are \<open>after_id\<close> and \<open>before_id\<close> below.\<close>

definition cursor_date :: "server \<Rightarrow> string option \<Rightarrow> error + nat option" where
  "cursor_date srv cursor =
     (case cursor of
        None \<Rightarrow> Inr None
      | Some i \<Rightarrow>
          if i = [] then Inr None
          else (case get_message_by_id srv i of
                  None \<Rightarrow> Inl AttributeError
                | Some m \<Rightarrow> Inr (Some (created_at m))))"

datatype records = Messages "Message list" | LettaMessages "letta_message list"

definition get_agent_recall_cursor ::
  "env \<Rightarrow> user_id \<Rightarrow> agent_id \<Rightarrow> string option \<Rightarrow> string option \<Rightarrow> nat option \<Rightarrow> bool \<Rightarrow> bool \<Rightarrow>
     server \<Rightarrow> (error + records) \<times> server" where
  "get_agent_recall_cursor env user_id agent_id after_id before_id limit reverse return_message_object srv =
     (let actor = get_user_or_default srv user_id in
      case load_agent env agent_id actor srv of
        (Inl e, srv1) \<Rightarrow> (Inl e, srv1)
      | (Inr letta_agent, srv1) \<Rightarrow>
          (case cursor_date srv1 after_id of
             Inl e \<Rightarrow> (Inl e, srv1)
           | Inr start_date \<Rightarrow>
               (case cursor_date srv1 before_id of
                  Inl e \<Rightarrow> (Inl e, srv1)
                | Inr end_date \<Rightarrow>
                    (let rs = list_messages_for_agent srv1 agent_id start_date end_date limit
                                (\<not> reverse)
                     in if return_message_object
                        then (Inr (Messages (if reverse then rev rs else rs)), srv1)
                        else (let ls = concat (map (to_letta_message env) rs)
                              in (Inr (LettaMessages (if reverse then rev ls else ls)), srv1))))))"

section \<open>Concurrent calls of \<^verbatim>\<open>_step\<close>\<close>

text \<open>Requests are served by threads of one process that share the server. A thread that runs
  \<^verbatim>\<open>_step\<close> passes through the points below; from one point to the next it performs one
  action on the shared server, and between two actions of a thread the other threads may run.
  The actions are: validating the input and entering \<^verbatim>\<open>with agent_lock\<close> (possible only
  while no thread holds the lock of that agent, otherwise the thread waits), the body of the
  \<^verbatim>\<open>with\<close> block, leaving the block, \<^verbatim>\<open>Agent.step\<close>, \<^verbatim>\<open>save_agent\<close>, and
  \<^verbatim>\<open>step_yield\<close> with the return. Cutting an action into smaller ones would add
  interleavings and remove none.\<close>

datatype phase =
    Called user agent_id step_input
  | Holding agent_id "Message list"
  | Leaving agent_id "Message list" "error + agent"
  | Loaded agent_id "Message list" agent
  | Stepped agent_id "error + usage \<times> agent"
  | Yielding agent_id "error + usage"
  | Returned "error + usage"

record world =
  shared :: server
  held :: "agent_id list"
  threads :: "phase list"

text \<open>The lock a thread holds at a point: between entering and leaving the \<^verbatim>\<open>with\<close> block.\<close>

fun holds :: "phase \<Rightarrow> agent_id option" where
  "holds (Holding a ms) = Some a"
| "holds (Leaving a ms r) = Some a"
| "holds p = None"

text \<open>The agent whose state a thread has loaded and not yet persisted or given up: from the
  body of \<^verbatim>\<open>load_agent\<close> to the \<^verbatim>\<open>save_agent\<close> after the step.\<close>

fun in_span :: "phase \<Rightarrow> agent_id option" where
  "in_span (Leaving a ms (Inr ag)) = Some a"
| "in_span (Loaded a ms ag) = Some a"
| "in_span (Stepped a (Inr r)) = Some a"
| "in_span p = None"

definition move :: "world \<Rightarrow> nat \<Rightarrow> phase \<Rightarrow> server \<Rightarrow> world" where
  "move w i p srv = w\<lparr>shared := srv, threads := (threads w)[i := p]\<rparr>"

text \<open>One action of thread \<open>i\<close>; \<open>None\<close> when the thread waits for a lock, has returned, or
  does not exist.\<close>

definition thread_step :: "env \<Rightarrow> nat \<Rightarrow> world \<Rightarrow> world option" where
  "thread_step env i w =
     (if length (threads w) \<le> i then None
      else
        (case threads w ! i of
           Called actor agent_id input_messages \<Rightarrow>
             (case input_list input_messages of
                Inl e \<Rightarrow> Some (move w i (Returned (Inl e)) (shared w))
              | Inr ms \<Rightarrow>
                  if agent_id \<in> set (held w) then None
                  else Some ((move w i (Holding agent_id ms) (emit (Acquire agent_id) (shared w)))
                               \<lparr>held := agent_id # held w\<rparr>))
         | Holding agent_id ms \<Rightarrow>
             (case load_agent_locked env agent_id (shared w) of
                (r, srv) \<Rightarrow> Some (move w i (Leaving agent_id ms r) srv))
         | Leaving agent_id ms r \<Rightarrow>
             Some ((move w i (case r of Inl e \<Rightarrow> Returned (Inl e)
                                      | Inr letta_agent \<Rightarrow> Loaded agent_id ms letta_agent)
                      (emit (Release agent_id) (shared w)))
                     \<lparr>held := removeAll agent_id (held w)\<rparr>)
         | Loaded agent_id ms letta_agent \<Rightarrow>
             Some (move w i (Stepped agent_id (Agent_step env letta_agent ms))
                     (emit (Step agent_id) (shared w)))
         | Stepped agent_id r \<Rightarrow>
             (case r of
                Inl e \<Rightarrow> Some (move w i (Yielding agent_id (Inl e)) (shared w))
              | Inr (usage_stats, letta_agent) \<Rightarrow>
                  Some (move w i (Yielding agent_id (Inr usage_stats))
                          (save_agent letta_agent (shared w))))
         | Yielding agent_id r \<Rightarrow>
             Some (move w i (Returned r) (emit (StepYield agent_id) (shared w)))
         | Returned r \<Rightarrow> None))"

text \<open>A schedule names the thread that is given the next turn; a thread that cannot act lets
  its turn pass.\<close>

fun run :: "env \<Rightarrow> nat list \<Rightarrow> world \<Rightarrow> world" where
  "run env [] w = w"
| "run env (i # schedule) w =
     run env schedule (case thread_step env i w of None \<Rightarrow> w | Some w' \<Rightarrow> w')"

text \<open>The world in which every thread has just called \<^verbatim>\<open>_step\<close> and no lock is held.\<close>

definition calls :: "server \<Rightarrow> (user \<times> agent_id \<times> step_input) list \<Rightarrow> world" where
  "calls srv cs =
     \<lparr>shared = srv, held = [], threads = map (\<lambda>(actor, agent_id, m). Called actor agent_id m) cs\<rparr>"

text \<open>The lock table and the threads agree when the locks held are exactly the locks of
  the threads inside a \<^verbatim>\<open>with\<close> block, and no two threads are inside the block of the same
  agent. The second argument lists, thread by thread, the lock the thread holds.\<close>

definition lock_table :: "agent_id list \<Rightarrow> agent_id option list \<Rightarrow> bool" where
  "lock_table hl hs =
     ((\<forall>a. a \<in> set hl \<longleftrightarrow> (\<exists>i < length hs. hs ! i = Some a))
      \<and> (\<forall>i j a. i < length hs \<and> j < length hs \<and> hs ! i = Some a \<and> hs ! j = Some a
             \<longrightarrow> i = j))"

definition lock_consistent :: "world \<Rightarrow> bool" where
  "lock_consistent w = lock_table (held w) (map holds (threads w))"

section \<open>Sample values\<close>

text \<open>Concrete collaborators, one agent and one user, for the closed theorems below. The sample
  step appends its input to the buffer; the sample JSON codec wraps and unwraps one string; a
  record of recall memory expands to two messages, its identifier and its role.\<close>

definition sample_msg :: "string \<Rightarrow> string \<Rightarrow> msg" where
  "sample_msg r c = \<lparr>role = r, content = Some c, function_call = None\<rparr>"

definition as_msg :: "Message \<Rightarrow> msg" where
  "as_msg m = \<lparr>role = message_role m, content = message_text m, function_call = None\<rparr>"

definition sample_env :: env where
  "sample_env =
     \<lparr>Agent_step = (\<lambda>ag ms. Inr (LettaUsageStatistics\<lparr>step_count := 1\<rparr>,
                                 ag\<lparr>messages := messages ag @ map as_msg ms\<rparr>)),
      rebuild_system_prompt = (\<lambda>ag. ag),
      attach_source = (\<lambda>ag u i. Inr ag),
      str_memory = (\<lambda>ag. ''memory''),
      str_passage_manager = (\<lambda>ag. ''passages''),
      json_loads = (\<lambda>s. Inr (JObj [(''message'', JStr s)])),
      json_dumps = (\<lambda>j. case j of JObj [(k, JStr s)] \<Rightarrow> s | _ \<Rightarrow> []),
      package_user_message = (\<lambda>s t. s),
      package_system_message = (\<lambda>s. s),
      get_heartbeat = Batch [],
      get_token_limit_warning = Batch [],
      new_message_id = ''message-0'',
      utc_now = 0,
      to_letta_message =
        (\<lambda>m. [LettaMessage (message_id m), LettaMessage (message_role m)])\<rparr>"

definition sample_state :: "msg list \<Rightarrow> agent_state" where
  "sample_state ms =
     \<lparr>ident = ''agent-1'', agent_type = memgpt_agent, created_by_id = Some ''user-1'',
      message_buffer = ms\<rparr>"

definition sample_server :: "msg list \<Rightarrow> server" where
  "sample_server ms =
     \<lparr>users = (\<lambda>u. if u = ''user-1'' then Some (User ''user-1'') else None),
      default_user = User ''user-1'',
      agents = (\<lambda>a. if a = ''agent-1'' then Row (sample_state ms) else NoRow),
      recall = [],
      events = []\<rparr>"

text \<open>The buffer \<^verbatim>\<open>[system, user, assistant("A"), tool, assistant("B")]\<close>.\<close>

definition five :: "msg list" where
  "five = [sample_msg ''system'' ''S'', sample_msg ''user'' ''U'', sample_msg ''assistant'' ''A'',
           sample_msg ''tool'' ''T'', sample_msg ''assistant'' ''B'']"

text \<open>Collaborators of the tool runner: \<^verbatim>\<open>{}\<close> is the only valid JSON text, the constructor
  of \<^verbatim>\<open>Tool\<close> stores what it is given, and the sandbox raises on the source \<^verbatim>\<open>raise\<close>.\<close>

definition sample_tool_env :: tool_env where
  "sample_tool_env =
     \<lparr>py_json_loads = (\<lambda>s. if s = ''{}'' then Some (JObj []) else None),
      Tool_new = (\<lambda>n s. Inr \<lparr>tool_name = n, source_code = s\<rparr>),
      sandbox_run = (\<lambda>n args u t.
         if source_code t = ''raise'' then Inl ''boom''
         else Inr \<lparr>func_return = ''ok'', stdout = [''out'', '' ''], stderr = []\<rparr>),
      format_exc = (\<lambda>e. ''Traceback: '' @ e),
      get_utc_time = 0,
      MAX_ERROR_MESSAGE_CHAR_LIMIT = 30\<rparr>"

text \<open>Two records of recall memory, created at times 1 and 2.\<close>

definition sample_recall :: "nat \<Rightarrow> Message" where
  "sample_recall t =
     \<lparr>message_id = ''message-'' @ replicate t CHR ''i'', message_agent = ''agent-1'',
      message_role = ''user'', message_text = Some ''hello'', created_at = t\<rparr>"

definition recall_server :: server where
  "recall_server = (sample_server [])\<lparr>recall := [sample_recall 1, sample_recall 2]\<rparr>"

text \<open>Two requests for the same agent, each with one user message.\<close>

definition sample_input :: "string \<Rightarrow> step_input" where
  "sample_input t =
     Single \<lparr>message_id = ''message-0'', message_agent = ''agent-1'', message_role = ''user'',
             message_text = Some t, created_at = 0\<rparr>"

definition two_calls :: world where
  "two_calls =
     calls (sample_server [sample_msg ''system'' ''S''])
       [(User ''user-1'', ''agent-1'', sample_input ''first''),
        (User ''user-1'', ''agent-1'', sample_input ''second'')]"

section \<open>Evaluation and string lemmas\<close>

lemmas sample_defs = sample_msg_def sample_env_def sample_state_def sample_server_def five_def

lemmas server_defs = server_command_def load_agent_def load_agent_locked_def get_agent_by_id_def
  get_user_by_id_def get_user_or_default_def emit_def save_agent_def new_agent_def command_on_def
  Let_def

lemmas string_defs = lower_def lower_char_def char_of_def startswith_def strip_def split_str_def
  isspace_def isdigit_def isdigit_char_def int_of_digits_def

lemma lower_Cons: "lower (c # cs) = lower_char c # lower cs"
  and lower_Nil: "lower [] = []"
  by (simp_all add: lower_def)

lemma startswith_Cons:
  "startswith c (p # ps) \<longleftrightarrow> (\<exists>cs. c = p # cs \<and> startswith cs ps)"
  by (cases c) (auto simp: startswith_def)

lemma isdigit_not_space: "isdigit_char c \<Longrightarrow> \<not> isspace c"
  by (auto simp: isdigit_char_def isspace_def Let_def)

lemma split_from_word:
  "\<forall>c \<in> set ds. \<not> isspace c \<Longrightarrow>
   split_from w ds = (if w = [] \<and> ds = [] then [] else [rev w @ ds])"
  by (induction ds arbitrary: w) auto

lemma strip_id:
  assumes "s \<noteq> []" "\<not> isspace (hd s)" "\<not> isspace (last s)"
  shows "strip s = s"
proof -
  have lead: "dropWhile isspace s = s"
    using assms by (cases s) auto
  have "rev s = last s # rev (butlast s)"
    using assms(1) by (metis append_butlast_last_id rev.simps(2) rev_rev_ident rev_swap)
  moreover have "dropWhile isspace (last s # rev (butlast s)) = last s # rev (butlast s)"
    using assms(3) by simp
  ultimately have trail: "dropWhile isspace (rev s) = rev s"
    by (simp only:)
  show ?thesis
    by (simp add: strip_def lead trail)
qed

section \<open>Loading, then the command\<close>

lemma server_command_loaded:
  assumes "fst (load_agent env agent_id (get_user_or_default srv user_id) srv) = Inr ag"
  shows "server_command env user_id agent_id command srv =
     (case command_on env (get_user_or_default srv user_id) user_id agent_id command ag
             (snd (load_agent env agent_id (get_user_or_default srv user_id) srv)) of
        (r, ag', srv2) \<Rightarrow> (r, Some ag', srv2))"
  using assms
  by (cases "load_agent env agent_id (get_user_or_default srv user_id) srv")
     (simp add: server_command_def Let_def)

lemma sample_load:
  "fst (load_agent sample_env ''agent-1'' (get_user_or_default (sample_server ms) ''user-1'')
          (sample_server ms)) = Inr (new_agent (sample_state ms) (User ''user-1''))"
  by (simp add: sample_defs server_defs)

section \<open>pop\<close>

lemma pop_times_take: "k \<le> length xs \<Longrightarrow> pop_times k xs = Inr (take (length xs - k) xs)"
proof (induction k arbitrary: xs)
  case 0
  then show ?case by simp
next
  case (Suc k)
  then have ne: "xs \<noteq> []" by auto
  have "k \<le> length (butlast xs)" using Suc.prems by simp
  from Suc.IH[OF this] show ?case using ne
    by (simp add: list_pop_def butlast_conv_take)
qed

lemma pop_messages_eq:
  "pop_messages n ms =
     Inr (if length ms \<le> 2 \<or> length ms < n + 2 then ms else take (length ms - n) ms)"
  by (auto simp: pop_messages_def MIN_MESSAGES_def Let_def pop_times_take)

lemma pop_amount_of_digits:
  assumes "isdigit ds"
  shows "pop_amount_of (CHR ''p'' # CHR ''o'' # CHR ''p'' # CHR '' '' # ds) = int_of_digits ds"
proof -
  from assms have ne: "ds \<noteq> []" and dg: "\<forall>c \<in> set ds. isdigit_char c"
    by (auto simp: isdigit_def list_all_iff)
  then have ns: "\<forall>c \<in> set ds. \<not> isspace c"
    by (auto dest: isdigit_not_space)
  have "\<not> isspace (last ds)"
    using ne ns by simp
  then have "strip (''pop '' @ ds) = ''pop '' @ ds"
    using ne by (intro strip_id) (simp_all add: isspace_def)
  then have st: "strip (CHR ''p'' # CHR ''o'' # CHR ''p'' # CHR '' '' # ds) = ''pop '' @ ds"
    by simp
  have sp: "split_str (CHR ''p'' # CHR ''o'' # CHR ''p'' # CHR '' '' # ds) = [''pop'', ds]"
    using ne ns by (simp add: split_str_def isspace_def split_from_word)
  show ?thesis
    using assms by (simp add: pop_amount_of_def st sp)
qed

lemma pop_amount_of_default: "pop_amount_of ''pop'' = 3"
  by (simp add: pop_amount_of_def string_defs)

lemma pop_branch:
  assumes "c = ''pop'' \<or> startswith c ''pop ''"
  shows "c \<noteq> ''exit''" "c \<noteq> ''save''" "c \<noteq> ''savechat''" "c \<noteq> ''attach''" "c \<noteq> ''dump''"
    "\<not> startswith c ''dump ''" "c \<noteq> ''dumpraw''" "c \<noteq> ''memory''"
  using assms by (auto simp: startswith_Cons)

lemma command_on_pop:
  assumes "lower command = ''pop'' \<or> startswith (lower command) ''pop ''"
  shows "command_on env actor user_id agent_id command ag srv =
     (Inr (Usage LettaUsageStatistics),
      ag\<lparr>messages :=
          (if length (messages ag) \<le> 2 \<or> length (messages ag) < pop_amount_of command + 2
           then messages ag
           else take (length (messages ag) - pop_amount_of command) (messages ag))\<rparr>,
      srv)"
  using pop_branch[OF assms] assms
  by (simp add: command_on_def Let_def pop_messages_eq)

text \<open>C2, as stated, fails: on a buffer of five messages \<^verbatim>\<open>pop 10\<close> removes nothing, where the
  claim has the buffer end at two messages.\<close>

theorem pop_without_clamp_counterexample:
  "map_option messages
     (fst (snd (server_command sample_env ''user-1'' ''agent-1'' ''pop 10'' (sample_server five))))
   = Some five \<and> length five = 5"
  by (simp add: sample_defs server_defs string_defs pop_amount_of_def pop_messages_def
      MIN_MESSAGES_def)

text \<open>C2, amended. For a buffer of \<open>m\<close> messages and the command \<^verbatim>\<open>pop n\<close> (\<^verbatim>\<open>pop\<close> alone
  stands for \<open>n = 3\<close>): nothing is removed when \<open>m \<le> 2\<close> or \<open>m - n < 2\<close>; otherwise exactly
  the last \<open>n\<close> messages are removed, which leaves \<open>m - n \<ge> 2\<close> messages. The command returns
  the default usage statistics and changes nothing else.\<close>

theorem pop_command:
  assumes "fst (load_agent env agent_id (get_user_or_default srv user_id) srv) = Inr ag"
    and "command = ''pop'' \<and> n = 3
         \<or> (\<exists>ds. isdigit ds \<and> command = ''pop '' @ ds \<and> n = int_of_digits ds)"
  shows "server_command env user_id agent_id command srv =
     (Inr (Usage LettaUsageStatistics),
      Some (ag\<lparr>messages :=
                (if length (messages ag) \<le> 2 \<or> int (length (messages ag)) - int n < 2
                 then messages ag
                 else take (length (messages ag) - n) (messages ag))\<rparr>),
      snd (load_agent env agent_id (get_user_or_default srv user_id) srv))"
proof -
  have n: "pop_amount_of command = n"
    using assms(2) by (auto simp: pop_amount_of_default pop_amount_of_digits)
  have c: "lower command = ''pop'' \<or> startswith (lower command) ''pop ''"
    using assms(2) by (auto simp: lower_Cons lower_Nil lower_char_def startswith_def)
  have "(int (length (messages ag)) - int n < 2) = (length (messages ag) < n + 2)"
    by linarith
  then show ?thesis
    by (simp add: server_command_loaded[OF assms(1)] command_on_pop[OF c] n)
qed

theorem pop_command_witness:
  "isdigit ''2'' \<and> int_of_digits ''2'' = 2 \<and>
   map_option messages
     (fst (snd (server_command sample_env ''user-1'' ''agent-1'' ''pop 2'' (sample_server five))))
   = Some (take 3 five)"
proof -
  have d: "isdigit ''2''" "int_of_digits ''2'' = 2"
    by (simp_all add: string_defs)
  have h: "''pop 2'' = ''pop'' \<and> (2::nat) = 3
           \<or> (\<exists>ds. isdigit ds \<and> ''pop 2'' = ''pop '' @ ds \<and> 2 = int_of_digits ds)"
    using d by simp
  show ?thesis
    using pop_command[OF sample_load h, of five] d
    by (simp add: new_agent_def sample_state_def five_def)
qed

section \<open>retry\<close>

lemma retry_nil: "retry_messages [] = []"
  by (simp add: retry_messages.simps)

lemma retry_snoc:
  "retry_messages (ms @ [m]) = (if role m = ''user'' then ms else retry_messages ms)"
  by (subst retry_messages.simps) simp

lemma retry_no_user_app:
  "\<forall>m \<in> set post. role m \<noteq> ''user'' \<Longrightarrow> retry_messages (pre @ post) = retry_messages pre"
proof (induction post rule: rev_induct)
  case Nil
  then show ?case by simp
next
  case (snoc x xs)
  have "retry_messages (pre @ xs @ [x]) = retry_messages ((pre @ xs) @ [x])"
    by simp
  also have "\<dots> = retry_messages (pre @ xs)"
    using snoc.prems by (subst retry_snoc) simp
  finally show ?case
    using snoc by simp
qed

lemma retry_last_user:
  assumes "role u = ''user''" "\<forall>m \<in> set post. role m \<noteq> ''user''"
  shows "retry_messages (pre @ u # post) = pre"
proof -
  have "retry_messages (pre @ u # post) = retry_messages ((pre @ [u]) @ post)"
    by simp
  also have "\<dots> = retry_messages (pre @ [u])"
    using assms(2) by (rule retry_no_user_app)
  also have "\<dots> = pre"
    using assms(1) by (simp add: retry_snoc)
  finally show ?thesis .
qed

lemma retry_no_user:
  assumes "\<forall>m \<in> set ms. role m \<noteq> ''user''"
  shows "retry_messages ms = []"
  using retry_no_user_app[of ms "[]"] assms by (simp add: retry_nil)

lemma retry_length: "length (retry_messages ms) \<le> length ms"
proof (induction ms rule: rev_induct)
  case Nil
  then show ?case by (simp add: retry_nil)
next
  case (snoc x xs)
  then show ?case by (simp add: retry_snoc)
qed

lemma command_on_retry:
  assumes "lower command = ''retry''"
  shows "command_on env actor user_id agent_id command ag srv =
     (Inr (Usage LettaUsageStatistics), ag\<lparr>messages := retry_messages (messages ag)\<rparr>, srv)"
  using assms by (simp add: command_on_def Let_def startswith_def)

text \<open>C5. \<^verbatim>\<open>retry\<close> removes messages from the tail up to and including the last message
  of role \<^verbatim>\<open>user\<close>: a buffer \<open>pre @ u # post\<close>, where \<open>u\<close> is a user message and \<open>post\<close> has
  none, becomes \<open>pre\<close>; a buffer without a user message becomes empty. The witness is the
  buffer \<^verbatim>\<open>[system, user, assistant, tool, assistant]\<close>, which becomes \<^verbatim>\<open>[system]\<close>.\<close>

theorem retry_command:
  assumes "fst (load_agent env agent_id (get_user_or_default srv user_id) srv) = Inr ag"
    and "command = ''retry''"
  shows "\<exists>ms'. server_command env user_id agent_id command srv =
           (Inr (Usage LettaUsageStatistics), Some (ag\<lparr>messages := ms'\<rparr>),
            snd (load_agent env agent_id (get_user_or_default srv user_id) srv))
         \<and> (\<forall>pre u post. messages ag = pre @ u # post \<and> role u = ''user''
               \<and> (\<forall>m \<in> set post. role m \<noteq> ''user'') \<longrightarrow> ms' = pre)
         \<and> ((\<forall>m \<in> set (messages ag). role m \<noteq> ''user'') \<longrightarrow> ms' = [])"
proof -
  have c: "lower command = ''retry''"
    using assms(2) by (simp add: lower_def lower_char_def)
  show ?thesis
    by (rule exI[of _ "retry_messages (messages ag)"])
       (auto simp: server_command_loaded[OF assms(1)] command_on_retry[OF c]
          retry_last_user retry_no_user)
qed

theorem retry_command_witness:
  "map_option messages
     (fst (snd (server_command sample_env ''user-1'' ''agent-1'' ''retry'' (sample_server five))))
   = Some [sample_msg ''system'' ''S'']"
proof -
  from retry_command[OF sample_load refl, of five]
  obtain ms' where r: "server_command sample_env ''user-1'' ''agent-1'' ''retry'' (sample_server five) =
           (Inr (Usage LettaUsageStatistics),
            Some ((new_agent (sample_state five) (User ''user-1''))\<lparr>messages := ms'\<rparr>),
            snd (load_agent sample_env ''agent-1''
                   (get_user_or_default (sample_server five) ''user-1'') (sample_server five)))"
    and p: "\<forall>pre u post. messages (new_agent (sample_state five) (User ''user-1'')) = pre @ u # post
               \<and> role u = ''user'' \<and> (\<forall>m \<in> set post. role m \<noteq> ''user'') \<longrightarrow> ms' = pre"
    by blast
  have "ms' = [sample_msg ''system'' ''S'']"
    using p[rule_format, of "[sample_msg ''system'' ''S'']" "sample_msg ''user'' ''U''"
        "[sample_msg ''assistant'' ''A'', sample_msg ''tool'' ''T'', sample_msg ''assistant'' ''B'']"]
    by (simp add: new_agent_def sample_state_def five_def sample_msg_def)
  then show ?thesis
    using r by simp
qed

section \<open>rethink and rewrite\<close>

lemma rethink_from_none:
  "\<forall>j. 1 \<le> j \<and> j \<le> n \<longrightarrow> role (ms ! j) \<noteq> ''assistant'' \<Longrightarrow> rethink_from n t ms = ms"
  by (induction n) auto

lemma rethink_from_found:
  "1 \<le> x \<Longrightarrow> x \<le> n \<Longrightarrow> role (ms ! x) = ''assistant'' \<Longrightarrow>
   \<forall>j. x < j \<and> j \<le> n \<longrightarrow> role (ms ! j) \<noteq> ''assistant'' \<Longrightarrow>
   rethink_from n t ms = ms[x := (ms ! x)\<lparr>content := Some t\<rparr>]"
proof (induction n)
  case 0
  then show ?case by simp
next
  case (Suc n)
  show ?case
  proof (cases "x = Suc n")
    case True
    then show ?thesis using Suc.prems by simp
  next
    case False
    then have "x \<le> n" using Suc.prems by simp
    moreover have "role (ms ! Suc n) \<noteq> ''assistant''" using Suc.prems False by auto
    ultimately show ?thesis using Suc by simp
  qed
qed

lemma rethink_from_length: "length (rethink_from n t ms) = length ms"
  by (induction n) auto

lemma rewrite_from_length: "rewrite_from env n t ms = Inr ms' \<Longrightarrow> length ms' = length ms"
  by (induction n) (auto split: if_splits sum.splits)



lemma rethink_messages_found:
  assumes "length ''rethink '' \<le> length command"
    and "1 \<le> x" "x < length ms" "role (ms ! x) = ''assistant''"
    and "\<forall>j. x < j \<and> j < length ms \<longrightarrow> role (ms ! j) \<noteq> ''assistant''"
  shows "rethink_messages command ms = ms[x := (ms ! x)\<lparr>content := Some (command_text command)\<rparr>]"
proof -
  have "rethink_from (length ms - 1) (command_text command) ms
        = ms[x := (ms ! x)\<lparr>content := Some (command_text command)\<rparr>]"
  proof (rule rethink_from_found)
    show "1 \<le> x" by fact
    show "x \<le> length ms - 1" using assms(3) by simp
    show "role (ms ! x) = ''assistant''" by fact
    show "\<forall>j. x < j \<and> j \<le> length ms - 1 \<longrightarrow> role (ms ! j) \<noteq> ''assistant''"
      using assms(5) by auto
  qed
  then show ?thesis
    using assms(1) by (simp only: rethink_messages_def not_less[symmetric] if_False)
qed

lemma rethink_messages_none:
  assumes "\<forall>j. 1 \<le> j \<and> j < length ms \<longrightarrow> role (ms ! j) \<noteq> ''assistant''"
  shows "rethink_messages command ms = ms"
proof -
  have "rethink_from (length ms - 1) (command_text command) ms = ms"
  proof (rule rethink_from_none)
    show "\<forall>j. 1 \<le> j \<and> j \<le> length ms - 1 \<longrightarrow> role (ms ! j) \<noteq> ''assistant''"
      using assms by auto
  qed
  then show ?thesis
    by (simp only: rethink_messages_def if_cancel)
qed

lemma command_on_rethink:
  assumes "lower command = ''rethink'' \<or> startswith (lower command) ''rethink ''"
  shows "command_on env actor user_id agent_id command ag srv =
     (Inr (Usage LettaUsageStatistics), ag\<lparr>messages := rethink_messages command (messages ag)\<rparr>, srv)"
proof -
  from assms obtain cs where c: "lower command = ''rethink'' @ cs"
    by (auto simp: startswith_Cons)
  show ?thesis using assms
    by (simp add: command_on_def Let_def c startswith_def)
qed

lemma command_on_rewrite:
  assumes "lower command = ''rewrite'' \<or> startswith (lower command) ''rewrite ''"
  shows "command_on env actor user_id agent_id command ag srv =
     (case rewrite_messages env command (messages ag) of
           Inl e \<Rightarrow> (Inl e, ag, srv)
         | Inr msgs \<Rightarrow> (Inr (Usage LettaUsageStatistics), ag\<lparr>messages := msgs\<rparr>, srv))"
proof -
  from assms obtain cs where c: "lower command = ''rewrite'' @ cs"
    by (auto simp: startswith_Cons)
  show ?thesis using assms
    by (simp add: command_on_def Let_def c startswith_def)
qed

text \<open>C6. \<^verbatim>\<open>rethink <text>\<close> replaces the content of the last message of role
  \<^verbatim>\<open>assistant\<close> among the indices \<open>1, \<dots>, length - 1\<close> by the text (as the command
  processor reads it: without white space around it) and leaves every other message, earlier
  assistant messages and index 0 included, as it is; without such a message the buffer is
  unchanged. The witness is \<^verbatim>\<open>rethink C\<close> on
  \<^verbatim>\<open>[system, user, assistant("A"), tool, assistant("B")]\<close>.\<close>

theorem rethink_command:
  assumes "fst (load_agent env agent_id (get_user_or_default srv user_id) srv) = Inr ag"
    and "command = ''rethink '' @ t"
  shows "\<exists>ms'. server_command env user_id agent_id command srv =
           (Inr (Usage LettaUsageStatistics), Some (ag\<lparr>messages := ms'\<rparr>),
            snd (load_agent env agent_id (get_user_or_default srv user_id) srv))
         \<and> (\<forall>x. 1 \<le> x \<and> x < length (messages ag) \<and> role (messages ag ! x) = ''assistant''
                \<and> (\<forall>j. x < j \<and> j < length (messages ag) \<longrightarrow> role (messages ag ! j) \<noteq> ''assistant'')
              \<longrightarrow> ms' = (messages ag)[x := (messages ag ! x)\<lparr>content := Some (strip t)\<rparr>])
         \<and> ((\<forall>j. 1 \<le> j \<and> j < length (messages ag) \<longrightarrow> role (messages ag ! j) \<noteq> ''assistant'')
              \<longrightarrow> ms' = messages ag)"
proof -
  have c: "startswith (lower command) ''rethink ''"
    unfolding assms(2) by (simp add: lower_Cons lower_char_def startswith_def)
  have t: "command_text command = strip t"
    unfolding assms(2) by (simp add: command_text_def)
  have l: "length ''rethink '' \<le> length command"
    unfolding assms(2) by simp
  have sc: "server_command env user_id agent_id command srv =
           (Inr (Usage LettaUsageStatistics),
            Some (ag\<lparr>messages := rethink_messages command (messages ag)\<rparr>),
            snd (load_agent env agent_id (get_user_or_default srv user_id) srv))"
    by (simp only: server_command_loaded[OF assms(1)] command_on_rethink[OF disjI2[OF c]] prod.case)
  show ?thesis
  proof (intro exI conjI allI impI)
    show "server_command env user_id agent_id command srv =
           (Inr (Usage LettaUsageStatistics),
            Some (ag\<lparr>messages := rethink_messages command (messages ag)\<rparr>),
            snd (load_agent env agent_id (get_user_or_default srv user_id) srv))"
      by (rule sc)
  next
    fix x
    assume "1 \<le> x \<and> x < length (messages ag) \<and> role (messages ag ! x) = ''assistant''
                \<and> (\<forall>j. x < j \<and> j < length (messages ag) \<longrightarrow> role (messages ag ! j) \<noteq> ''assistant'')"
    then have "rethink_messages command (messages ag)
        = (messages ag)[x := (messages ag ! x)\<lparr>content := Some (command_text command)\<rparr>]"
      by (intro rethink_messages_found[OF l]) blast+
    then show "rethink_messages command (messages ag)
        = (messages ag)[x := (messages ag ! x)\<lparr>content := Some (strip t)\<rparr>]"
      by (simp only: t)
  next
    assume "\<forall>j. 1 \<le> j \<and> j < length (messages ag) \<longrightarrow> role (messages ag ! j) \<noteq> ''assistant''"
    then show "rethink_messages command (messages ag) = messages ag"
      by (rule rethink_messages_none)
  qed
qed

theorem rethink_command_witness:
  "map_option messages
     (fst (snd (server_command sample_env ''user-1'' ''agent-1'' ''rethink C'' (sample_server five))))
   = Some [sample_msg ''system'' ''S'', sample_msg ''user'' ''U'', sample_msg ''assistant'' ''A'',
           sample_msg ''tool'' ''T'', sample_msg ''assistant'' ''C'']"
proof -
  let ?ag = "new_agent (sample_state five) (User ''user-1'')"
  have h: "''rethink C'' = ''rethink '' @ ''C''" by simp
  from rethink_command[OF sample_load h, of five]
  obtain ms' where r: "server_command sample_env ''user-1'' ''agent-1'' ''rethink C'' (sample_server five) =
           (Inr (Usage LettaUsageStatistics), Some (?ag\<lparr>messages := ms'\<rparr>),
            snd (load_agent sample_env ''agent-1''
                   (get_user_or_default (sample_server five) ''user-1'') (sample_server five)))"
    and p: "\<forall>x. 1 \<le> x \<and> x < length (messages ?ag) \<and> role (messages ?ag ! x) = ''assistant''
                \<and> (\<forall>j. x < j \<and> j < length (messages ?ag) \<longrightarrow> role (messages ?ag ! j) \<noteq> ''assistant'')
              \<longrightarrow> ms' = (messages ?ag)[x := (messages ?ag ! x)\<lparr>content := Some (strip ''C'')\<rparr>]"
    by blast
  have m: "messages ?ag = five"
    by (simp add: new_agent_def sample_state_def)
  have "1 \<le> (4::nat) \<and> 4 < length five \<and> role (five ! 4) = ''assistant''
                \<and> (\<forall>j. 4 < j \<and> j < length five \<longrightarrow> role (five ! j) \<noteq> ''assistant'')"
    by (simp add: five_def sample_msg_def)
  then have "ms' = five[4 := (five ! 4)\<lparr>content := Some (strip ''C'')\<rparr>]"
    using p[rule_format, of 4] unfolding m by blast
  then show ?thesis
    using r by (simp add: five_def sample_msg_def strip_def isspace_def)
qed

section \<open>The size of the buffer after a command\<close>

lemma rethink_messages_length: "length (rethink_messages command ms) = length ms"
  by (simp add: rethink_messages_def rethink_from_length del: length_greater_0_conv)

lemma rewrite_messages_length:
  "rewrite_messages env command ms = Inr ms' \<Longrightarrow> length ms' = length ms"
  by (auto simp: rewrite_messages_def rewrite_from_length split: if_splits)

text \<open>C4, as stated, fails: \<^verbatim>\<open>retry\<close> on the buffer \<^verbatim>\<open>[system, user]\<close> leaves exactly one
  message.\<close>

theorem retry_leaves_one_counterexample:
  "map_option messages
     (fst (snd (server_command sample_env ''user-1'' ''agent-1'' ''retry''
                  (sample_server [sample_msg ''system'' ''S'', sample_msg ''user'' ''U'']))))
   = Some [sample_msg ''system'' ''S'']"
  by (simp add: sample_defs server_defs string_defs retry_messages.simps)

text \<open>C4, amended. After \<^verbatim>\<open>pop\<close>, \<^verbatim>\<open>rethink\<close> or \<^verbatim>\<open>rewrite\<close> the buffer has the length
  it had before, or (after \<^verbatim>\<open>pop\<close>) a smaller length that is still at least 2: these
  commands never take the buffer below two messages. After \<^verbatim>\<open>retry\<close> the buffer is no
  longer than before; it can have any smaller length, one included.\<close>

theorem command_buffer_length:
  assumes "fst (load_agent env agent_id (get_user_or_default srv user_id) srv) = Inr ag"
    and "server_command env user_id agent_id command srv = (r, Some ag', srv')"
  shows "(lower command = ''pop'' \<or> startswith (lower command) ''pop ''
          \<or> lower command = ''rethink'' \<or> startswith (lower command) ''rethink ''
          \<or> lower command = ''rewrite'' \<or> startswith (lower command) ''rewrite ''
          \<longrightarrow> length (messages ag') = length (messages ag)
              \<or> 2 \<le> length (messages ag') \<and> length (messages ag') < length (messages ag))
       \<and> (lower command = ''retry'' \<longrightarrow> length (messages ag') \<le> length (messages ag))"
proof (intro conjI impI)
  note sc = assms(2)[unfolded server_command_loaded[OF assms(1)]]
  {
    assume "lower command = ''pop'' \<or> startswith (lower command) ''pop ''
          \<or> lower command = ''rethink'' \<or> startswith (lower command) ''rethink ''
          \<or> lower command = ''rewrite'' \<or> startswith (lower command) ''rewrite ''"
    then consider
        (pop) "lower command = ''pop'' \<or> startswith (lower command) ''pop ''"
      | (rethink) "lower command = ''rethink'' \<or> startswith (lower command) ''rethink ''"
      | (rewrite) "lower command = ''rewrite'' \<or> startswith (lower command) ''rewrite ''"
      by blast
    then show "length (messages ag') = length (messages ag)
              \<or> 2 \<le> length (messages ag') \<and> length (messages ag') < length (messages ag)"
    proof cases
      case pop
      show ?thesis
        using sc by (auto simp: command_on_pop[OF pop] split: if_splits)
    next
      case rethink
      show ?thesis
        using sc by (auto simp: command_on_rethink[OF rethink] rethink_messages_length)
    next
      case rewrite
      show ?thesis
        using sc by (auto simp: command_on_rewrite[OF rewrite] split: sum.splits
            dest: rewrite_messages_length)
    qed
  }
  {
    assume "lower command = ''retry''"
    then show "length (messages ag') \<le> length (messages ag)"
      using sc by (auto simp: command_on_retry retry_length)
  }
qed

theorem command_buffer_length_witness:
  "lower ''pop 2'' = ''pop 2'' \<and> startswith ''pop 2'' ''pop '' \<and>
   map_option (length \<circ> messages)
     (fst (snd (server_command sample_env ''user-1'' ''agent-1'' ''pop 2'' (sample_server five))))
   = Some 3"
proof -
  have l: "lower ''pop 2'' = ''pop 2''" "startswith ''pop 2'' ''pop ''"
    by (simp_all add: string_defs)
  have c: "lower ''pop 2'' = ''pop'' \<or> startswith (lower ''pop 2'') ''pop ''"
    using l by simp
  let ?ag = "new_agent (sample_state five) (User ''user-1'')"
  let ?ag' = "?ag\<lparr>messages :=
          (if length (messages ?ag) \<le> 2 \<or> length (messages ?ag) < pop_amount_of ''pop 2'' + 2
           then messages ?ag
           else take (length (messages ?ag) - pop_amount_of ''pop 2'') (messages ?ag))\<rparr>"
  have sc: "server_command sample_env ''user-1'' ''agent-1'' ''pop 2'' (sample_server five)
     = (Inr (Usage LettaUsageStatistics), Some ?ag',
        snd (load_agent sample_env ''agent-1''
               (get_user_or_default (sample_server five) ''user-1'') (sample_server five)))"
    by (simp only: server_command_loaded[OF sample_load] command_on_pop[OF c] prod.case)
  have "length (messages ?ag') = length (messages ?ag)
        \<or> 2 \<le> length (messages ?ag') \<and> length (messages ?ag') < length (messages ?ag)"
    using command_buffer_length[OF sample_load sc] c by blast
  moreover have "pop_amount_of ''pop 2'' = 2"
    by (simp add: pop_amount_of_def string_defs)
  ultimately show ?thesis
    using l unfolding sc by (simp add: new_agent_def sample_state_def five_def)
qed

section \<open>heartbeat and memorywarning\<close>

lemma lower_heartbeat: "lower ''heartbeat'' = ''heartbeat''"
  and lower_memorywarning: "lower ''memorywarning'' = ''memorywarning''"
  by (simp_all add: lower_def lower_char_def)

lemma call_step_input_message:
  "call_step env [(''actor'', a), (''agent_id'', i), (''input_message'', m)] srv = (Inl TypeError, srv)"
  by (simp add: call_step_def step_parameters_def)

lemma command_on_heartbeat:
  "command_on env actor user_id agent_id ''heartbeat'' ag srv = (Inl TypeError, ag, srv)"
  by (simp add: command_on_def Let_def lower_heartbeat startswith_def call_step_input_message)

lemma command_on_memorywarning:
  "command_on env actor user_id agent_id ''memorywarning'' ag srv = (Inl TypeError, ag, srv)"
  by (simp add: command_on_def Let_def lower_memorywarning startswith_def call_step_input_message)

text \<open>C3 is what the code attempts and misses: both commands call \<^verbatim>\<open>_step\<close> with the keyword
  \<^verbatim>\<open>input_message\<close>, a parameter \<^verbatim>\<open>_step\<close> does not have, so the call raises
  \<^verbatim>\<open>TypeError\<close> before \<^verbatim>\<open>_step\<close> runs: no step is made and no usage statistics come
  back.\<close>

theorem heartbeat_memorywarning_raise:
  assumes "fst (load_agent env agent_id (get_user_or_default srv user_id) srv) = Inr ag"
    and "command = ''heartbeat'' \<or> command = ''memorywarning''"
  shows "server_command env user_id agent_id command srv =
           (Inl TypeError, Some ag,
            snd (load_agent env agent_id (get_user_or_default srv user_id) srv))"
  using assms(2)
proof
  assume "command = ''heartbeat''"
  then show ?thesis
    by (simp only: server_command_loaded[OF assms(1)] command_on_heartbeat prod.case)
next
  assume "command = ''memorywarning''"
  then show ?thesis
    by (simp only: server_command_loaded[OF assms(1)] command_on_memorywarning prod.case)
qed

theorem heartbeat_memorywarning_raise_witness:
  "fst (server_command sample_env ''user-1'' ''agent-1'' ''heartbeat'' (sample_server five))
   = Inl TypeError"
  using heartbeat_memorywarning_raise[OF sample_load, of "''heartbeat''" five]
  by simp

section \<open>Tool errors\<close>


lemma run_in_sandbox_raised:
  "sandbox_run tenv n args u t = Inl e \<Longrightarrow>
   status (run_in_sandbox tenv u args t n) = ''error''
   \<and> function_return (run_in_sandbox tenv u args t n) = get_error_msg_for_func_return tenv n e"
  by (simp add: run_in_sandbox_def)

lemma run_in_sandbox_returned:
  "sandbox_run tenv n args u t = Inr res \<Longrightarrow>
   status (run_in_sandbox tenv u args t n)
     = (if \<exists>s \<in> set (stderr res). strip s \<noteq> [] then ''error'' else ''success'')
   \<and> function_return (run_in_sandbox tenv u args t n)
     = (if \<exists>s \<in> set (stderr res). strip s \<noteq> []
        then get_error_msg_for_func_return tenv n (last (filter (\<lambda>s. strip s \<noteq> []) (stderr res)))
        else func_return res)"
  by (auto simp: run_in_sandbox_def Let_def filter_empty_conv)





text \<open>C10, as stated, fails: with valid JSON arguments, no source type and a tool object
  that has no name (here: no name was given and the constructor stores what it is given), the
  assertion on \<^verbatim>\<open>tool.name\<close> raises \<^verbatim>\<open>AssertionError\<close>: neither a \<^verbatim>\<open>ValueError\<close> nor a
  \<^verbatim>\<open>FunctionReturn\<close>.\<close>

theorem run_tool_assertion_counterexample:
  "py_json_loads sample_tool_env ''{}'' = Some (JObj [])
   \<and> run_tool_from_source sample_tool_env ''user-1'' ''{}'' ''def f(): pass'' None None
       = Inl AssertionError"
  by (simp add: run_tool_from_source_def sample_tool_env_def)

text \<open>C10, amended. \<^verbatim>\<open>run_tool_from_source\<close> raises \<^verbatim>\<open>ValueError\<close> when the arguments are
  not valid JSON or the source type is neither \<^verbatim>\<open>None\<close> nor \<^verbatim>\<open>python\<close>. Otherwise it raises
  what the constructor of the tool object raises, or \<^verbatim>\<open>AssertionError\<close> when the tool object
  has no name. For every remaining input it returns a \<^verbatim>\<open>FunctionReturn\<close>, also when the
  sandbox raises or captures error output: the status is \<^verbatim>\<open>error\<close> when the sandbox raised
  or captured an error line that is not blank, and \<^verbatim>\<open>success\<close> otherwise.\<close>

theorem run_tool_outcomes:
  "(py_json_loads tenv tool_args = None
      \<or> tool_source_type \<noteq> None \<and> tool_source_type \<noteq> Some ''python''
    \<longrightarrow> (\<exists>m. run_tool_from_source tenv user_id tool_args tool_source tool_source_type tname
               = Inl (ValueError m)))
   \<and> (\<forall>args. py_json_loads tenv tool_args = Some args
          \<and> (tool_source_type = None \<or> tool_source_type = Some ''python'') \<longrightarrow>
        (\<forall>e. Tool_new tenv tname tool_source = Inl e \<longrightarrow>
           run_tool_from_source tenv user_id tool_args tool_source tool_source_type tname = Inl e)
        \<and> (\<forall>t. Tool_new tenv tname tool_source = Inr t \<and> tool_name t = None \<longrightarrow>
           run_tool_from_source tenv user_id tool_args tool_source tool_source_type tname
             = Inl AssertionError)
        \<and> (\<forall>t n. Tool_new tenv tname tool_source = Inr t \<and> tool_name t = Some n \<longrightarrow>
           (\<exists>fr. run_tool_from_source tenv user_id tool_args tool_source tool_source_type tname
                    = Inr fr
                 \<and> status fr =
                     (if (\<exists>e. sandbox_run tenv n args user_id t = Inl e)
                         \<or> (\<exists>res. sandbox_run tenv n args user_id t = Inr res
                                \<and> (\<exists>s \<in> set (stderr res). strip s \<noteq> []))
                      then ''error'' else ''success''))))"
proof (intro conjI impI allI)
  assume "py_json_loads tenv tool_args = None
      \<or> tool_source_type \<noteq> None \<and> tool_source_type \<noteq> Some ''python''"
  then show "\<exists>m. run_tool_from_source tenv user_id tool_args tool_source tool_source_type tname
               = Inl (ValueError m)"
    by (auto simp: run_tool_from_source_def split: option.splits)
next
  fix args e
  assume "py_json_loads tenv tool_args = Some args
          \<and> (tool_source_type = None \<or> tool_source_type = Some ''python'')"
    and "Tool_new tenv tname tool_source = Inl e"
  then show "run_tool_from_source tenv user_id tool_args tool_source tool_source_type tname = Inl e"
    by (auto simp: run_tool_from_source_def)
next
  fix args t
  assume "py_json_loads tenv tool_args = Some args
          \<and> (tool_source_type = None \<or> tool_source_type = Some ''python'')"
    and "Tool_new tenv tname tool_source = Inr t \<and> tool_name t = None"
  then show "run_tool_from_source tenv user_id tool_args tool_source tool_source_type tname
             = Inl AssertionError"
    by (auto simp: run_tool_from_source_def)
next
  fix args t n
  assume a: "py_json_loads tenv tool_args = Some args
          \<and> (tool_source_type = None \<or> tool_source_type = Some ''python'')"
    and t: "Tool_new tenv tname tool_source = Inr t \<and> tool_name t = Some n"
  have r: "run_tool_from_source tenv user_id tool_args tool_source tool_source_type tname
             = Inr (run_in_sandbox tenv user_id args t n)"
    using a t by (auto simp: run_tool_from_source_def)
  have "status (run_in_sandbox tenv user_id args t n) =
                     (if (\<exists>e. sandbox_run tenv n args user_id t = Inl e)
                         \<or> (\<exists>res. sandbox_run tenv n args user_id t = Inr res
                                \<and> (\<exists>s \<in> set (stderr res). strip s \<noteq> []))
                      then ''error'' else ''success'')"
  proof (cases "sandbox_run tenv n args user_id t")
    case (Inl e)
    then show ?thesis using run_in_sandbox_raised[OF Inl] by simp
  next
    case (Inr res)
    then show ?thesis using run_in_sandbox_returned[OF Inr] by simp
  qed
  then show "\<exists>fr. run_tool_from_source tenv user_id tool_args tool_source tool_source_type tname
                    = Inr fr
                 \<and> status fr =
                     (if (\<exists>e. sandbox_run tenv n args user_id t = Inl e)
                         \<or> (\<exists>res. sandbox_run tenv n args user_id t = Inr res
                                \<and> (\<exists>s \<in> set (stderr res). strip s \<noteq> []))
                      then ''error'' else ''success'')"
    using r by blast
qed

theorem run_tool_outcomes_witness:
  "(\<exists>fr. run_tool_from_source sample_tool_env ''user-1'' ''{}'' ''return'' (Some ''python'') (Some ''t'')
           = Inr fr \<and> status fr = ''success'')
   \<and> (\<exists>m. run_tool_from_source sample_tool_env ''user-1'' ''{'' ''return'' None (Some ''t'')
           = Inl (ValueError m))"
proof -
  let ?t = "\<lparr>tool_name = Some ''t'', source_code = ''return''\<rparr>"
  note w = run_tool_outcomes[of sample_tool_env _ _ "''user-1''" "''return''" "Some ''t''"]
  have a: "py_json_loads sample_tool_env ''{}'' = Some (JObj [])
           \<and> (Some ''python'' = None \<or> Some ''python'' = Some ''python'')"
    and t: "Tool_new sample_tool_env (Some ''t'') ''return'' = Inr ?t \<and> tool_name ?t = Some ''t''"
    and s: "sandbox_run sample_tool_env ''t'' (JObj []) ''user-1'' ?t
             = Inr \<lparr>func_return = ''ok'', stdout = [''out'', '' ''], stderr = []\<rparr>"
    and b: "py_json_loads sample_tool_env ''{'' = None"
    by (simp_all add: sample_tool_env_def)
  from w[of "''{}''" "Some ''python''", THEN conjunct2, rule_format, OF a, THEN conjunct2,
         THEN conjunct2, rule_format, OF t]
  have "\<exists>fr. run_tool_from_source sample_tool_env ''user-1'' ''{}'' ''return'' (Some ''python'') (Some ''t'')
           = Inr fr \<and> status fr = ''success''"
    by (simp add: s)
  moreover from w[of "''{''" None, THEN conjunct1] b
  have "\<exists>m. run_tool_from_source sample_tool_env ''user-1'' ''{'' ''return'' None (Some ''t'')
           = Inl (ValueError m)"
    by blast
  ultimately show ?thesis by blast
qed

section \<open>Validation\<close>

lemma lookup_user_and_agent_error:
  "lookup_user_and_agent srv user_id agent_id = Inl e \<Longrightarrow> \<exists>m. e = ValueError m"
  by (auto simp: lookup_user_and_agent_def get_user_by_id_def get_agent_by_id_def
      split: option.splits agent_row.splits)

text \<open>C8. A string message that is empty or starts with \<^verbatim>\<open>/\<close> makes \<^verbatim>\<open>user_message\<close> and
  \<^verbatim>\<open>system_message\<close> raise \<^verbatim>\<open>ValueError\<close> and leaves the server as it was: no lock has
  been taken (no event recorded) and no agent row has changed. When the user and the agent
  exist, the error is the one of the input check.\<close>

theorem invalid_text_rejected_before_lock:
  assumes "s = [] \<or> startswith s ''/''"
  shows "(\<exists>m. user_message env user_id agent_id (Str s) timestamp srv = (Inl (ValueError m), srv)
              \<and> (\<forall>actor. lookup_user_and_agent srv user_id agent_id = Inr actor \<longrightarrow> m = invalid_input s))
       \<and> (\<exists>m. system_message env user_id agent_id (Str s) timestamp srv = (Inl (ValueError m), srv)
              \<and> (\<forall>actor. lookup_user_and_agent srv user_id agent_id = Inr actor \<longrightarrow> m = invalid_input s))"
proof (cases "lookup_user_and_agent srv user_id agent_id")
  case (Inl e)
  then obtain m where "e = ValueError m"
    using lookup_user_and_agent_error by blast
  then show ?thesis
    using Inl by (simp add: user_message_def system_message_def)
next
  case (Inr actor)
  then show ?thesis
    using assms by (auto simp: user_message_def system_message_def)
qed

theorem invalid_text_rejected_before_lock_witness:
  "startswith ''/pop'' ''/''
   \<and> user_message sample_env ''user-1'' ''agent-1'' (Str ''/pop'') None (sample_server five)
       = (Inl (ValueError (invalid_input ''/pop'')), sample_server five)
   \<and> system_message sample_env ''user-1'' ''agent-1'' (Str ''/pop'') None (sample_server five)
       = (Inl (ValueError (invalid_input ''/pop'')), sample_server five)"
proof -
  have h: "startswith ''/pop'' ''/''"
    by (simp add: startswith_def)
  have l: "lookup_user_and_agent (sample_server five) ''user-1'' ''agent-1'' = Inr (User ''user-1'')"
    by (simp add: lookup_user_and_agent_def get_user_by_id_def get_agent_by_id_def sample_server_def)
  show ?thesis
    using invalid_text_rejected_before_lock[OF disjI2[OF h], of sample_env "''user-1''" "''agent-1''"
        None "sample_server five"] l h
    by auto
qed

section \<open>Recall\<close>

lemma load_agent_recall: "recall (snd (load_agent env agent_id actor srv)) = recall srv"
  by (simp add: load_agent_def load_agent_locked_def emit_def save_agent_def Let_def
      split: sum.splits option.splits prod.splits)

lemma get_message_by_id_load:
  "get_message_by_id (snd (load_agent env agent_id actor srv)) i = get_message_by_id srv i"
  by (simp add: get_message_by_id_def load_agent_recall)

lemma cursor_date_load:
  "cursor_date (snd (load_agent env agent_id actor srv)) c = cursor_date srv c"
  by (simp add: cursor_date_def get_message_by_id_load split: option.splits)

lemma list_messages_load:
  "list_messages_for_agent (snd (load_agent env agent_id actor srv)) a s e l asc
   = list_messages_for_agent srv a s e l asc"
  by (simp add: list_messages_for_agent_def load_agent_recall)

lemmas recall_defs = get_agent_recall_cursor_def cursor_date_def list_messages_for_agent_def
  in_bounds_def get_message_by_id_def recall_server_def sample_recall_def

text \<open>C7, as stated, fails. With two records and limit 1, \<^verbatim>\<open>reverse=False\<close> lists the older
  record and \<^verbatim>\<open>reverse=True\<close> the newer one; with limit 100 both calls list both records
  in the same, ascending order.\<close>

theorem recall_reverse_counterexample:
  "fst (get_agent_recall_cursor sample_env ''user-1'' ''agent-1'' None None (Some 1) False True
          recall_server) = Inr (Messages [sample_recall 1])
   \<and> fst (get_agent_recall_cursor sample_env ''user-1'' ''agent-1'' None None (Some 1) True True
          recall_server) = Inr (Messages [sample_recall 2])
   \<and> fst (get_agent_recall_cursor sample_env ''user-1'' ''agent-1'' None None (Some 100) False True
          recall_server) = Inr (Messages [sample_recall 1, sample_recall 2])
   \<and> fst (get_agent_recall_cursor sample_env ''user-1'' ''agent-1'' None None (Some 100) True True
          recall_server) = Inr (Messages [sample_recall 1, sample_recall 2])"
  by (simp add: recall_defs sample_defs server_defs)


lemma recall_cursor_loaded:
  assumes "fst (load_agent env agent_id (get_user_or_default srv user_id) srv) = Inr ag"
    and "cursor_date srv after_id = Inr start_date"
    and "cursor_date srv before_id = Inr end_date"
  shows "get_agent_recall_cursor env user_id agent_id after_id before_id limit reverse True srv =
     (Inr (Messages
        (if reverse
         then rev (list_messages_for_agent srv agent_id start_date end_date limit False)
         else list_messages_for_agent srv agent_id start_date end_date limit True)),
      snd (load_agent env agent_id (get_user_or_default srv user_id) srv))"
    and "get_agent_recall_cursor env user_id agent_id after_id before_id limit reverse False srv =
     (Inr (LettaMessages
        (if reverse
         then rev (concat (map (to_letta_message env)
                (list_messages_for_agent srv agent_id start_date end_date limit False)))
         else concat (map (to_letta_message env)
                (list_messages_for_agent srv agent_id start_date end_date limit True)))),
      snd (load_agent env agent_id (get_user_or_default srv user_id) srv))"
proof -
  obtain r srv1 where l: "load_agent env agent_id (get_user_or_default srv user_id) srv = (r, srv1)"
    by (cases "load_agent env agent_id (get_user_or_default srv user_id) srv")
  have r: "r = Inr ag" using assms(1) l by simp
  have s: "srv1 = snd (load_agent env agent_id (get_user_or_default srv user_id) srv)"
    using l by simp
  have c: "cursor_date srv1 after_id = Inr start_date" "cursor_date srv1 before_id = Inr end_date"
    unfolding s by (simp_all add: cursor_date_load assms)
  have m: "list_messages_for_agent srv1 agent_id start_date end_date limit asc
           = list_messages_for_agent srv agent_id start_date end_date limit asc" for asc
    unfolding s by (rule list_messages_load)
  show "get_agent_recall_cursor env user_id agent_id after_id before_id limit reverse True srv =
     (Inr (Messages
        (if reverse
         then rev (list_messages_for_agent srv agent_id start_date end_date limit False)
         else list_messages_for_agent srv agent_id start_date end_date limit True)),
      snd (load_agent env agent_id (get_user_or_default srv user_id) srv))"
    unfolding get_agent_recall_cursor_def Let_def l r
    by (simp add: c m s[symmetric])
  show "get_agent_recall_cursor env user_id agent_id after_id before_id limit reverse False srv =
     (Inr (LettaMessages
        (if reverse
         then rev (concat (map (to_letta_message env)
                (list_messages_for_agent srv agent_id start_date end_date limit False)))
         else concat (map (to_letta_message env)
                (list_messages_for_agent srv agent_id start_date end_date limit True)))),
      snd (load_agent env agent_id (get_user_or_default srv user_id) srv))"
    unfolding get_agent_recall_cursor_def Let_def l r
    by (simp add: c m s[symmetric])
qed

lemma rev_concat_map_rev: "rev (concat (map f xs)) = concat (map (rev \<circ> f) (rev xs))"
  by (simp add: rev_concat rev_map)

text \<open>C7, amended. Let \<open>ordered\<close> be the records of the agent within the bounds, in
  ascending order of creation. With \<^verbatim>\<open>reverse=False\<close> the listing selects the first
  \<^verbatim>\<open>limit\<close> records of \<open>ordered\<close> (the oldest), with \<^verbatim>\<open>reverse=True\<close> the last \<^verbatim>\<open>limit\<close>
  records of \<open>ordered\<close> (the newest); the two selections are the same when there is no limit
  or the limit is not smaller than the number of records. With
  \<^verbatim>\<open>return_message_object=True\<close> both calls return their selection in ascending order, so
  they return the same when the selections are the same. With
  \<^verbatim>\<open>return_message_object=False\<close> both calls return the expansions
  (\<^verbatim>\<open>to_letta_message\<close>) of the selected records one after the other in ascending order of
  the records; with \<^verbatim>\<open>reverse=False\<close> each expansion is in its own order, with
  \<^verbatim>\<open>reverse=True\<close> each expansion is reversed.\<close>

theorem recall_reverse_selection:
  assumes "fst (load_agent env agent_id (get_user_or_default srv user_id) srv) = Inr ag"
    and "cursor_date srv after_id = Inr start_date"
    and "cursor_date srv before_id = Inr end_date"
    and "ordered = sort_key created_at
                     (filter (in_bounds agent_id start_date end_date) (recall srv))"
  shows "fst (get_agent_recall_cursor env user_id agent_id after_id before_id limit False True srv)
           = Inr (Messages (case limit of None \<Rightarrow> ordered | Some n \<Rightarrow> take n ordered))
       \<and> fst (get_agent_recall_cursor env user_id agent_id after_id before_id limit True True srv)
           = Inr (Messages (case limit of None \<Rightarrow> ordered
                            | Some n \<Rightarrow> drop (length ordered - n) ordered))
       \<and> fst (get_agent_recall_cursor env user_id agent_id after_id before_id limit False False srv)
           = Inr (LettaMessages (concat (map (to_letta_message env)
                    (case limit of None \<Rightarrow> ordered | Some n \<Rightarrow> take n ordered))))
       \<and> fst (get_agent_recall_cursor env user_id agent_id after_id before_id limit True False srv)
           = Inr (LettaMessages (concat (map (rev \<circ> to_letta_message env)
                    (case limit of None \<Rightarrow> ordered
                     | Some n \<Rightarrow> drop (length ordered - n) ordered))))
       \<and> sorted (map created_at ordered)
       \<and> (limit = None \<or> (\<exists>n. limit = Some n \<and> length ordered \<le> n) \<longrightarrow>
            (case limit of None \<Rightarrow> ordered | Some n \<Rightarrow> drop (length ordered - n) ordered)
            = (case limit of None \<Rightarrow> ordered | Some n \<Rightarrow> take n ordered)
            \<and> get_agent_recall_cursor env user_id agent_id after_id before_id limit True True srv
              = get_agent_recall_cursor env user_id agent_id after_id before_id limit False True srv)"
proof -
  note rc = recall_cursor_loaded[OF assms(1-3)]
  have asc: "list_messages_for_agent srv agent_id start_date end_date limit True
             = (case limit of None \<Rightarrow> ordered | Some n \<Rightarrow> take n ordered)"
    unfolding assms(4) by (simp add: list_messages_for_agent_def Let_def)
  have desc: "rev (list_messages_for_agent srv agent_id start_date end_date limit False)
             = (case limit of None \<Rightarrow> ordered | Some n \<Rightarrow> drop (length ordered - n) ordered)"
    unfolding assms(4)
    by (simp add: list_messages_for_agent_def Let_def rev_take split: option.splits)
  have flat: "rev (concat (map (to_letta_message env)
                (list_messages_for_agent srv agent_id start_date end_date limit False)))
             = concat (map (rev \<circ> to_letta_message env)
                 (case limit of None \<Rightarrow> ordered
                  | Some n \<Rightarrow> drop (length ordered - n) ordered))"
    by (simp only: rev_concat_map_rev desc)
  have srt: "sorted (map created_at ordered)"
    unfolding assms(4) by simp
  have same: "(case limit of None \<Rightarrow> ordered | Some n \<Rightarrow> drop (length ordered - n) ordered)
            = (case limit of None \<Rightarrow> ordered | Some n \<Rightarrow> take n ordered)"
    if "limit = None \<or> (\<exists>n. limit = Some n \<and> length ordered \<le> n)"
    using that by auto
  show ?thesis
  proof (intro conjI impI)
    show "fst (get_agent_recall_cursor env user_id agent_id after_id before_id limit False True srv)
           = Inr (Messages (case limit of None \<Rightarrow> ordered | Some n \<Rightarrow> take n ordered))"
      by (simp add: rc(1) asc)
    show "fst (get_agent_recall_cursor env user_id agent_id after_id before_id limit True True srv)
           = Inr (Messages (case limit of None \<Rightarrow> ordered
                            | Some n \<Rightarrow> drop (length ordered - n) ordered))"
      by (simp add: rc(1) desc)
    show "fst (get_agent_recall_cursor env user_id agent_id after_id before_id limit False False srv)
           = Inr (LettaMessages (concat (map (to_letta_message env)
                    (case limit of None \<Rightarrow> ordered | Some n \<Rightarrow> take n ordered))))"
      by (simp add: rc(2) asc)
    show "fst (get_agent_recall_cursor env user_id agent_id after_id before_id limit True False srv)
           = Inr (LettaMessages (concat (map (rev \<circ> to_letta_message env)
                    (case limit of None \<Rightarrow> ordered
                     | Some n \<Rightarrow> drop (length ordered - n) ordered))))"
      by (simp add: rc(2) flat)
    show "sorted (map created_at ordered)"
      by (rule srt)
  next
    assume a: "limit = None \<or> (\<exists>n. limit = Some n \<and> length ordered \<le> n)"
    show "(case limit of None \<Rightarrow> ordered | Some n \<Rightarrow> drop (length ordered - n) ordered)
            = (case limit of None \<Rightarrow> ordered | Some n \<Rightarrow> take n ordered)"
      by (rule same[OF a])
    show "get_agent_recall_cursor env user_id agent_id after_id before_id limit True True srv
              = get_agent_recall_cursor env user_id agent_id after_id before_id limit False True srv"
      by (simp add: rc(1) asc desc same[OF a])
  qed
qed

theorem recall_reverse_selection_witness:
  "fst (get_agent_recall_cursor sample_env ''user-1'' ''agent-1'' None None (Some 1) True True
          recall_server) = Inr (Messages [sample_recall 2])
   \<and> fst (get_agent_recall_cursor sample_env ''user-1'' ''agent-1'' None None None False False
          recall_server)
       = Inr (LettaMessages [LettaMessage ''message-i'', LettaMessage ''user'',
                             LettaMessage ''message-ii'', LettaMessage ''user''])
   \<and> fst (get_agent_recall_cursor sample_env ''user-1'' ''agent-1'' None None None True False
          recall_server)
       = Inr (LettaMessages [LettaMessage ''user'', LettaMessage ''message-i'',
                             LettaMessage ''user'', LettaMessage ''message-ii''])"
proof -
  have l: "fst (load_agent sample_env ''agent-1'' (get_user_or_default recall_server ''user-1'')
             recall_server) = Inr (new_agent (sample_state []) (User ''user-1''))"
    by (simp add: recall_server_def sample_defs server_defs)
  have c: "cursor_date recall_server None = Inr None"
    by (simp add: cursor_date_def)
  have o: "[sample_recall 1, sample_recall 2] = sort_key created_at
             (filter (in_bounds ''agent-1'' None None) (recall recall_server))"
    by (simp add: recall_server_def in_bounds_def sample_recall_def)
  have f: "to_letta_message sample_env (sample_recall 1)
             = [LettaMessage ''message-i'', LettaMessage ''user'']"
    "to_letta_message sample_env (sample_recall 2)
             = [LettaMessage ''message-ii'', LettaMessage ''user'']"
    by (simp_all add: sample_env_def sample_recall_def eval_nat_numeral)
  show ?thesis
    using recall_reverse_selection[OF l c c o, of "Some 1"]
      recall_reverse_selection[OF l c c o, of None]
    by (simp add: f f(1)[unfolded One_nat_def])
qed

section \<open>The lock and concurrent steps\<close>

lemma lock_table_holder:
  "lock_table hl hs \<Longrightarrow> a \<in> set hl \<Longrightarrow> \<exists>i < length hs. hs ! i = Some a"
  and lock_table_held:
  "lock_table hl hs \<Longrightarrow> i < length hs \<Longrightarrow> hs ! i = Some a \<Longrightarrow> a \<in> set hl"
  and lock_table_unique:
  "lock_table hl hs \<Longrightarrow> i < length hs \<Longrightarrow> j < length hs \<Longrightarrow> hs ! i = Some a \<Longrightarrow>
   hs ! j = Some a \<Longrightarrow> i = j"
  unfolding lock_table_def by blast+

lemma lock_table_acquire:
  assumes t: "lock_table hl hs" and i: "i < length hs" and n: "hs ! i = None" and f: "a \<notin> set hl"
  shows "lock_table (a # hl) (hs[i := Some a])"
  unfolding lock_table_def
proof (intro conjI allI impI)
  fix b
  show "b \<in> set (a # hl) \<longleftrightarrow> (\<exists>k < length (hs[i := Some a]). hs[i := Some a] ! k = Some b)"
  proof
    assume "b \<in> set (a # hl)"
    then consider "b = a" | "b \<in> set hl" by auto
    then show "\<exists>k < length (hs[i := Some a]). hs[i := Some a] ! k = Some b"
    proof cases
      case 1
      have "hs[i := Some a] ! i = Some a" using i by simp
      then show ?thesis using i 1 by auto
    next
      case 2
      then obtain k where k: "k < length hs" "hs ! k = Some b"
        using lock_table_holder[OF t] by blast
      then have "k \<noteq> i" using n by auto
      then have "hs[i := Some a] ! k = Some b" using k by simp
      then show ?thesis using k(1) by auto
    qed
  next
    assume "\<exists>k < length (hs[i := Some a]). hs[i := Some a] ! k = Some b"
    then obtain k where k: "k < length hs" "hs[i := Some a] ! k = Some b" by auto
    show "b \<in> set (a # hl)"
    proof (cases "k = i")
      case True
      then have "b = a" using k i by simp
      then show ?thesis by simp
    next
      case False
      then have "hs ! k = Some b" using k by simp
      then have "b \<in> set hl" using lock_table_held[OF t k(1)] by simp
      then show ?thesis by simp
    qed
  qed
next
  fix k l b
  assume "k < length (hs[i := Some a]) \<and> l < length (hs[i := Some a])
          \<and> hs[i := Some a] ! k = Some b \<and> hs[i := Some a] ! l = Some b"
  then have kl: "k < length hs" "l < length hs"
    and ek: "hs[i := Some a] ! k = Some b" and el: "hs[i := Some a] ! l = Some b"
    by simp_all
  have other: "hs ! m \<noteq> Some a" if "m < length hs" for m
    using lock_table_held[OF t that] f by blast
  have old: "hs ! m = Some b" if "m < length hs" "m \<noteq> i" "hs[i := Some a] ! m = Some b" for m
    using that by simp
  show "k = l"
  proof (cases "k = i")
    case ki: True
    then have ba: "b = a" using ek i by simp
    show ?thesis
    proof (cases "l = i")
      case True
      then show ?thesis using ki by simp
    next
      case False
      have "hs ! l = Some a" using old[OF kl(2) False el] ba by simp
      then show ?thesis using other[OF kl(2)] by simp
    qed
  next
    case ki: False
    have hk: "hs ! k = Some b" using old[OF kl(1) ki ek] .
    show ?thesis
    proof (cases "l = i")
      case True
      then have "b = a" using el i by simp
      then show ?thesis using hk other[OF kl(1)] by simp
    next
      case False
      have "hs ! l = Some b" using old[OF kl(2) False el] .
      then show ?thesis using lock_table_unique[OF t kl hk] by simp
    qed
  qed
qed

lemma cleared_entry:
  assumes "i < length hs" "m < length hs" "hs[i := None] ! m = Some b"
  shows "m \<noteq> i" and "hs ! m = Some b"
proof -
  show "m \<noteq> i" using assms by auto
  then show "hs ! m = Some b" using assms by simp
qed

lemma lock_table_release:
  assumes t: "lock_table hl hs" and i: "i < length hs" and h: "hs ! i = Some a"
  shows "lock_table (removeAll a hl) (hs[i := None])"
  unfolding lock_table_def
proof (intro conjI allI impI)
  fix b
  show "b \<in> set (removeAll a hl) \<longleftrightarrow> (\<exists>k < length (hs[i := None]). hs[i := None] ! k = Some b)"
  proof
    assume "b \<in> set (removeAll a hl)"
    then have b: "b \<noteq> a" "b \<in> set hl" by auto
    then obtain k where k: "k < length hs" "hs ! k = Some b"
      using lock_table_holder[OF t] by blast
    then have "k \<noteq> i" using h b by auto
    then have "hs[i := None] ! k = Some b" using k by simp
    then show "\<exists>k < length (hs[i := None]). hs[i := None] ! k = Some b"
      using k(1) by auto
  next
    assume "\<exists>k < length (hs[i := None]). hs[i := None] ! k = Some b"
    then obtain k where k: "k < length hs" "hs[i := None] ! k = Some b" by auto
    have ki: "k \<noteq> i" using cleared_entry(1)[OF i k] .
    have hk: "hs ! k = Some b" using cleared_entry(2)[OF i k] .
    have "b \<noteq> a"
    proof
      assume "b = a"
      then have "k = i" using lock_table_unique[OF t k(1) i _ h] hk by simp
      then show False using ki by simp
    qed
    moreover have "b \<in> set hl" using lock_table_held[OF t k(1) hk] .
    ultimately show "b \<in> set (removeAll a hl)" by simp
  qed
next
  fix k l b
  assume "k < length (hs[i := None]) \<and> l < length (hs[i := None])
          \<and> hs[i := None] ! k = Some b \<and> hs[i := None] ! l = Some b"
  then have kl: "k < length hs" "l < length hs"
    and ek: "hs[i := None] ! k = Some b" and el: "hs[i := None] ! l = Some b"
    by simp_all
  show "k = l"
    using lock_table_unique[OF t kl cleared_entry(2)[OF i kl(1) ek] cleared_entry(2)[OF i kl(2) el]] .
qed

lemma move_consistent:
  assumes "lock_consistent w" "i < length (threads w)" "holds p = holds (threads w ! i)"
  shows "lock_consistent (move w i p srv)"
proof -
  have "(map holds (threads w))[i := holds p] = map holds (threads w)"
    using assms(2,3) by (simp add: list_update_same_conv)
  then have "map holds ((threads w)[i := p]) = map holds (threads w)"
    by (simp only: map_update)
  then show ?thesis
    using assms(1) by (simp add: lock_consistent_def move_def)
qed

lemma thread_step_phase:
  assumes "i < length (threads w)"
  shows "threads w ! i = Called actor a m \<Longrightarrow> thread_step env i w =
           (case input_list m of
              Inl e \<Rightarrow> Some (move w i (Returned (Inl e)) (shared w))
            | Inr ms \<Rightarrow>
                if a \<in> set (held w) then None
                else Some ((move w i (Holding a ms) (emit (Acquire a) (shared w)))
                             \<lparr>held := a # held w\<rparr>))"
    and "threads w ! i = Holding a ms \<Longrightarrow> thread_step env i w =
           Some (move w i (Leaving a ms (fst (load_agent_locked env a (shared w))))
                   (snd (load_agent_locked env a (shared w))))"
    and "threads w ! i = Leaving a ms r \<Longrightarrow> thread_step env i w =
           Some ((move w i (case r of Inl e \<Rightarrow> Returned (Inl e) | Inr ag \<Rightarrow> Loaded a ms ag)
                    (emit (Release a) (shared w)))\<lparr>held := removeAll a (held w)\<rparr>)"
    and "threads w ! i = Loaded a ms ag \<Longrightarrow> thread_step env i w =
           Some (move w i (Stepped a (Agent_step env ag ms)) (emit (Step a) (shared w)))"
    and "threads w ! i = Stepped a s \<Longrightarrow> thread_step env i w =
           Some (move w i (Yielding a (map_sum id fst s))
                   (case s of Inl e \<Rightarrow> shared w | Inr (u, ag') \<Rightarrow> save_agent ag' (shared w)))"
    and "threads w ! i = Yielding a y \<Longrightarrow> thread_step env i w =
           Some (move w i (Returned y) (emit (StepYield a) (shared w)))"
    and "threads w ! i = Returned y \<Longrightarrow> thread_step env i w = None"
  using assms by (simp_all add: thread_step_def split: prod.splits sum.splits)

lemma thread_step_consistent:
  assumes c: "lock_consistent w" and s: "thread_step env i w = Some w'"
  shows "lock_consistent w'"
proof -
  have i: "i < length (threads w)"
    using s by (simp add: thread_step_def split: if_splits)
  note lt = c[unfolded lock_consistent_def]
  note ph = thread_step_phase[OF i]
  show ?thesis
  proof (cases "threads w ! i")
    case (Called actor a m)
    show ?thesis
    proof (cases "input_list m")
      case (Inl e)
      then have "w' = move w i (Returned (Inl e)) (shared w)"
        using s ph(1)[OF Called] by simp
      then show ?thesis
        using move_consistent[OF c i] Called by simp
    next
      case (Inr ms)
      then have free: "a \<notin> set (held w)"
        and w': "w' = (move w i (Holding a ms) (emit (Acquire a) (shared w)))\<lparr>held := a # held w\<rparr>"
        using s ph(1)[OF Called] by (simp_all split: if_splits)
      have "lock_table (a # held w) ((map holds (threads w))[i := Some a])"
        using lt i Called free by (intro lock_table_acquire) simp_all
      then show ?thesis
        by (simp add: w' lock_consistent_def move_def map_update)
    qed
  next
    case (Holding a ms)
    then have "w' = move w i (Leaving a ms (fst (load_agent_locked env a (shared w))))
                   (snd (load_agent_locked env a (shared w)))"
      using s ph(2)[OF Holding] by simp
    then show ?thesis
      using move_consistent[OF c i] Holding by simp
  next
    case (Leaving a ms r)
    then have w': "w' = (move w i (case r of Inl e \<Rightarrow> Returned (Inl e) | Inr ag \<Rightarrow> Loaded a ms ag)
                      (emit (Release a) (shared w)))\<lparr>held := removeAll a (held w)\<rparr>"
      using s ph(3)[OF Leaving] by simp
    have h: "holds (case r of Inl e \<Rightarrow> Returned (Inl e) | Inr ag \<Rightarrow> Loaded a ms ag) = None"
      by (cases r) simp_all
    have "lock_table (removeAll a (held w)) ((map holds (threads w))[i := None])"
      using lt i Leaving by (intro lock_table_release) simp_all
    then show ?thesis
      by (simp add: w' lock_consistent_def move_def map_update h)
  next
    case (Loaded a ms ag)
    then have "w' = move w i (Stepped a (Agent_step env ag ms)) (emit (Step a) (shared w))"
      using s ph(4)[OF Loaded] by simp
    then show ?thesis
      using move_consistent[OF c i] Loaded by simp
  next
    case (Stepped a r)
    then have "w' = move w i (Yielding a (map_sum id fst r))
                   (case r of Inl e \<Rightarrow> shared w | Inr (u, ag') \<Rightarrow> save_agent ag' (shared w))"
      using s ph(5)[OF Stepped] by simp
    then show ?thesis
      using move_consistent[OF c i] Stepped by simp
  next
    case (Yielding a r)
    then have "w' = move w i (Returned r) (emit (StepYield a) (shared w))"
      using s ph(6)[OF Yielding] by simp
    then show ?thesis
      using move_consistent[OF c i] Yielding by simp
  next
    case (Returned r)
    then show ?thesis
      using s ph(7)[OF Returned] by simp
  qed
qed

lemma run_consistent: "lock_consistent w \<Longrightarrow> lock_consistent (run env schedule w)"
proof (induction schedule arbitrary: w)
  case Nil
  then show ?case by simp
next
  case (Cons i schedule)
  then show ?case
    by (cases "thread_step env i w") (auto intro: thread_step_consistent)
qed

lemma calls_consistent: "lock_consistent (calls srv cs)"
  by (auto simp: lock_consistent_def lock_table_def calls_def split: prod.splits)

text \<open>A thread that runs alone does what \<^verbatim>\<open>_step\<close> does.\<close>

lemma run_alone:
  "run env [0, 0, 0, 0, 0, 0] (calls srv [(actor, a, m)]) =
     \<lparr>shared = snd (server_step env actor a m srv), held = [],
      threads = [Returned (fst (server_step env actor a m srv))]\<rparr>"
proof (cases "input_list m")
  case (Inl e)
  then show ?thesis
    by (simp add: calls_def thread_step_def move_def server_step_def)
next
  case (Inr ms)
  obtain r srv1 where l: "load_agent_locked env a (emit (Acquire a) srv) = (r, srv1)"
    by (cases "load_agent_locked env a (emit (Acquire a) srv)")
  show ?thesis
  proof (cases r)
    case e: (Inl e)
    show ?thesis
      using Inr l e
      by (simp add: calls_def thread_step_def move_def server_step_def load_agent_def)
  next
    case ag: (Inr ag)
    show ?thesis
    proof (cases "Agent_step env ag ms")
      case (Inl e)
      then show ?thesis
        using Inr l ag
        by (simp add: calls_def thread_step_def move_def server_step_def load_agent_def)
    next
      case s: (Inr s)
      obtain u ag' where "s = (u, ag')" by (cases s)
      then show ?thesis
        using Inr l ag s
        by (simp add: calls_def thread_step_def move_def server_step_def load_agent_def)
    qed
  qed
qed

lemma load_agent_events:
  assumes "fst (load_agent env a actor srv) = Inr ag"
  shows "events (snd (load_agent env a actor srv))
         = events srv @ [Acquire a, Load a, Save (ident (state ag)), Release a]"
  using assms
  by (auto simp: load_agent_def load_agent_locked_def get_agent_by_id_def get_user_by_id_def
      emit_def save_agent_def Let_def
      split: agent_row.splits option.splits if_splits)

lemma server_step_events:
  assumes "input_list m = Inr ms"
    and "fst (load_agent env a actor srv) = Inr ag"
    and "Agent_step env ag ms = Inr (u, ag')"
  shows "events (snd (server_step env actor a m srv))
         = events srv @ [Acquire a, Load a, Save (ident (state ag)), Release a,
                         Step a, Save (ident (state ag')), StepYield a]"
proof -
  obtain srv1 where l: "load_agent env a actor srv = (Inr ag, srv1)"
    using assms(2) by (cases "load_agent env a actor srv") simp
  have "events srv1 = events srv @ [Acquire a, Load a, Save (ident (state ag)), Release a]"
    using load_agent_events[OF assms(2)] l by simp
  then show ?thesis
    using assms(1,3) l by (simp add: server_step_def emit_def save_agent_def)
qed

lemmas thread_defs = thread_step_def move_def calls_def two_calls_def sample_input_def
  input_list_def as_msg_def

text \<open>C1, as stated, fails. In one call of \<^verbatim>\<open>_step\<close> the lock is released before
  \<^verbatim>\<open>Agent.step\<close> and the save after it. Two calls for the same agent can therefore both load
  the agent before either persists (after three turns each, both threads are between load and
  persist); the call that persists last then overwrites the other one's message, which the
  two calls made one after the other keep.\<close>

theorem step_spans_interleave_counterexample:
  "events (snd (server_step sample_env (User ''user-1'') ''agent-1'' (sample_input ''first'')
                  (sample_server [sample_msg ''system'' ''S''])))
     = [Acquire ''agent-1'', Load ''agent-1'', Save ''agent-1'', Release ''agent-1'',
        Step ''agent-1'', Save ''agent-1'', StepYield ''agent-1'']
   \<and> map in_span (threads (run sample_env [0, 0, 0, 1, 1, 1] two_calls))
     = [Some ''agent-1'', Some ''agent-1'']
   \<and> agents (shared (run sample_env [0, 0, 0, 1, 1, 1, 0, 0, 0, 1, 1, 1] two_calls)) ''agent-1''
     = Row (sample_state [sample_msg ''system'' ''S'', sample_msg ''user'' ''second''])
   \<and> agents (shared (run sample_env [0, 0, 0, 0, 0, 0, 1, 1, 1, 1, 1, 1] two_calls)) ''agent-1''
     = Row (sample_state [sample_msg ''system'' ''S'', sample_msg ''user'' ''first'',
                          sample_msg ''user'' ''second''])"
  by (simp add: thread_defs sample_defs server_defs server_step_def)

text \<open>C1, amended. In a call of \<^verbatim>\<open>_step\<close> the lock of the agent is held for the span of
  \<^verbatim>\<open>load_agent\<close> only (fetching the state, building the agent object, rebuilding the system
  prompt, and the save inside \<^verbatim>\<open>load_agent\<close>); \<^verbatim>\<open>Agent.step\<close> and the save after it run
  once the lock has been released. A thread that runs alone does what \<^verbatim>\<open>_step\<close> does. For
  any number of concurrent calls and any schedule, the lock of an agent is held exactly while
  some thread is inside the \<^verbatim>\<open>with\<close> block of \<^verbatim>\<open>load_agent\<close> for that agent, and no two
  threads are inside it at once: the \<^verbatim>\<open>load_agent\<close> spans of calls for the same agent never
  overlap, while nothing serializes the spans from load to persist.\<close>

theorem lock_held_for_load_only:
  "(\<forall>ms ag u ag'. input_list m = Inr ms \<and> fst (load_agent env a actor srv) = Inr ag
        \<and> Agent_step env ag ms = Inr (u, ag') \<longrightarrow>
      events (snd (server_step env actor a m srv))
        = events srv @ [Acquire a, Load a, Save (ident (state ag)), Release a,
                        Step a, Save (ident (state ag')), StepYield a])
   \<and> run env [0, 0, 0, 0, 0, 0] (calls srv [(actor, a, m)])
       = \<lparr>shared = snd (server_step env actor a m srv), held = [],
          threads = [Returned (fst (server_step env actor a m srv))]\<rparr>
   \<and> (\<forall>w. w = run env schedule (calls srv cs) \<longrightarrow>
         (\<forall>b. b \<in> set (held w) \<longleftrightarrow> (\<exists>i < length (threads w). holds (threads w ! i) = Some b))
       \<and> (\<forall>i j b. i < length (threads w) \<and> j < length (threads w)
              \<and> holds (threads w ! i) = Some b \<and> holds (threads w ! j) = Some b \<longrightarrow> i = j))"
proof (intro conjI allI impI)
  fix ms ag u ag'
  assume "input_list m = Inr ms \<and> fst (load_agent env a actor srv) = Inr ag
        \<and> Agent_step env ag ms = Inr (u, ag')"
  then show "events (snd (server_step env actor a m srv))
        = events srv @ [Acquire a, Load a, Save (ident (state ag)), Release a,
                        Step a, Save (ident (state ag')), StepYield a]"
    using server_step_events by blast
next
  show "run env [0, 0, 0, 0, 0, 0] (calls srv [(actor, a, m)])
       = \<lparr>shared = snd (server_step env actor a m srv), held = [],
          threads = [Returned (fst (server_step env actor a m srv))]\<rparr>"
    by (rule run_alone)
next
  fix w b
  assume w: "w = run env schedule (calls srv cs)"
  have t: "lock_table (held w) (map holds (threads w))"
    using run_consistent[OF calls_consistent, of env schedule srv cs] w
    by (simp add: lock_consistent_def)
  show "b \<in> set (held w) \<longleftrightarrow> (\<exists>i < length (threads w). holds (threads w ! i) = Some b)"
  proof
    assume "b \<in> set (held w)"
    then obtain i where "i < length (map holds (threads w))" "map holds (threads w) ! i = Some b"
      using lock_table_holder[OF t] by blast
    then show "\<exists>i < length (threads w). holds (threads w ! i) = Some b"
      by auto
  next
    assume "\<exists>i < length (threads w). holds (threads w ! i) = Some b"
    then obtain i where "i < length (map holds (threads w))" "map holds (threads w) ! i = Some b"
      by auto
    then show "b \<in> set (held w)"
      using lock_table_held[OF t] by blast
  qed
next
  fix w i j b
  assume w: "w = run env schedule (calls srv cs)"
    and h: "i < length (threads w) \<and> j < length (threads w)
              \<and> holds (threads w ! i) = Some b \<and> holds (threads w ! j) = Some b"
  have t: "lock_table (held w) (map holds (threads w))"
    using run_consistent[OF calls_consistent, of env schedule srv cs] w
    by (simp add: lock_consistent_def)
  show "i = j"
    using lock_table_unique[OF t, of i j b] h by simp
qed

theorem lock_held_for_load_only_witness:
  "events (snd (server_step sample_env (User ''user-1'') ''agent-1'' (sample_input ''first'')
                  (sample_server [sample_msg ''system'' ''S''])))
     = [Acquire ''agent-1'', Load ''agent-1'', Save ''agent-1'', Release ''agent-1'',
        Step ''agent-1'', Save ''agent-1'', StepYield ''agent-1'']
   \<and> holds (threads (run sample_env [0, 1, 0, 1] two_calls) ! 0) = Some ''agent-1''
   \<and> ''agent-1'' \<in> set (held (run sample_env [0, 1, 0, 1] two_calls))
   \<and> holds (threads (run sample_env [0, 1, 0, 1] two_calls) ! 1) \<noteq> Some ''agent-1''"
proof -
  let ?srv = "sample_server [sample_msg ''system'' ''S'']"
  let ?ag = "new_agent (sample_state [sample_msg ''system'' ''S'']) (User ''user-1'')"
  let ?m = "\<lparr>message_id = ''message-0'', message_agent = ''agent-1'', message_role = ''user'',
             message_text = Some ''first'', created_at = 0\<rparr>"
  note w = lock_held_for_load_only[of "sample_input ''first''" sample_env "''agent-1''"
      "User ''user-1''" ?srv "[0, 1, 0, 1]"
      "[(User ''user-1'', ''agent-1'', sample_input ''first''),
        (User ''user-1'', ''agent-1'', sample_input ''second'')]"]
  have i: "input_list (sample_input ''first'') = Inr [?m]"
    by (simp add: input_list_def sample_input_def)
  have l: "fst (load_agent sample_env ''agent-1'' (User ''user-1'') ?srv) = Inr ?ag"
    by (simp add: sample_defs server_defs)
  have s: "Agent_step sample_env ?ag [?m]
           = Inr (LettaUsageStatistics\<lparr>step_count := 1\<rparr>,
                  ?ag\<lparr>messages := messages ?ag @ [as_msg ?m]\<rparr>)"
    by (simp add: sample_env_def)
  have e: "events (snd (server_step sample_env (User ''user-1'') ''agent-1''
                          (sample_input ''first'') ?srv))
     = events ?srv @ [Acquire ''agent-1'', Load ''agent-1'', Save (ident (state ?ag)),
        Release ''agent-1'', Step ''agent-1'',
        Save (ident (state (?ag\<lparr>messages := messages ?ag @ [as_msg ?m]\<rparr>))),
        StepYield ''agent-1'']"
    using w[THEN conjunct1, rule_format, of "[?m]" ?ag] i l s by blast
  define w where "w = run sample_env [0, 1, 0, 1] two_calls"
  have tc: "w = run sample_env [0, 1, 0, 1]
                   (calls ?srv [(User ''user-1'', ''agent-1'', sample_input ''first''),
                                (User ''user-1'', ''agent-1'', sample_input ''second'')])"
    by (simp only: w_def two_calls_def)
  note locks = w[THEN conjunct2, THEN conjunct2, rule_format, OF tc]
  have n: "length (threads w) = 2"
    and h0: "holds (threads w ! 0) = Some ''agent-1''"
    unfolding w_def by (simp_all add: thread_defs sample_defs server_defs)
  have held: "''agent-1'' \<in> set (held w)"
    using locks[THEN conjunct1, rule_format, of "''agent-1''"] n h0 by auto
  have h1: "holds (threads w ! 1) \<noteq> Some ''agent-1''"
    using locks[THEN conjunct2, rule_format, of 0 1 "''agent-1''"] n h0 by auto
  show ?thesis
  proof (intro conjI)
    show "events (snd (server_step sample_env (User ''user-1'') ''agent-1''
                         (sample_input ''first'') ?srv))
          = [Acquire ''agent-1'', Load ''agent-1'', Save ''agent-1'', Release ''agent-1'',
             Step ''agent-1'', Save ''agent-1'', StepYield ''agent-1'']"
      using e by (simp add: new_agent_def sample_state_def sample_server_def)
    show "holds (threads (run sample_env [0, 1, 0, 1] two_calls) ! 0) = Some ''agent-1''"
      using h0 unfolding w_def .
    show "''agent-1'' \<in> set (held (run sample_env [0, 1, 0, 1] two_calls))"
      using held unfolding w_def .
    show "holds (threads (run sample_env [0, 1, 0, 1] two_calls) ! 1) \<noteq> Some ''agent-1''"
      using h1 unfolding w_def .
  qed
qed

end
